theory Spec2Isabelle
  imports Main "HOL-Library.Word"
begin

unbundle bit_operations_syntax

section \<open>Machine integers, errors and frozen records\<close>

text \<open>
  The metadata tables hold fixed-width unsigned integers; they are words here, so that
  \<open>+\<close> and \<open>-\<close> wrap as in the C++ source.  Sizes of in-memory vectors (\<open>size_t\<close> values
  returned by \<open>size()\<close>) are natural numbers; where the source does arithmetic on
  \<open>size_t\<close> the reduction modulo \<open>2 ^ 64\<close> is written out.
\<close>

type_synonym u16 = "16 word"
type_synonym u32 = "32 word"
type_synonym u64 = "64 word"

text \<open>
  \<open>runtime_error\<close> is \<open>DWARFS_THROW(runtime_error, msg)\<close>, \<open>check_failure\<close> is a failed
  \<open>DWARFS_CHECK\<close> or \<open>DWARFS_NOTHROW\<close> (both abort), \<open>undefined_behaviour\<close> is a read or
  write outside a container or through an empty optional, which C++ leaves undefined.
\<close>

datatype error = runtime_error string | check_failure string | undefined_behaviour

definition size_t_sub :: "nat \<Rightarrow> nat \<Rightarrow> nat" where
  "size_t_sub a b = (2 ^ 64 + a - b mod 2 ^ 64) mod 2 ^ 64"

definition size_t_add :: "nat \<Rightarrow> nat \<Rightarrow> nat" where
  "size_t_add a b = (a + b) mod 2 ^ 64"

text \<open>A \<open>for\<close> loop over a container whose body may throw: the first error ends the loop.\<close>

fun for_each_check :: "('a \<Rightarrow> error + unit) \<Rightarrow> 'a list \<Rightarrow> error + unit" where
  "for_each_check f [] = Inr ()"
| "for_each_check f (x # xs) = (case f x of Inl e \<Rightarrow> Inl e | Inr _ \<Rightarrow> for_each_check f xs)"

text \<open>Sequencing of two statements, the first of which may throw.\<close>

definition and_then :: "error + unit \<Rightarrow> error + 'a \<Rightarrow> error + 'a" where
  "and_then a b = (case a of Inl e \<Rightarrow> Inl e | Inr _ \<Rightarrow> b)"

text \<open>The rows of the frozen tables (thrift structs of the metadata schema).\<close>

record inode_data =
  mode_index :: u32
  owner_index :: u32
  group_index :: u32
  name_index_v2_2 :: u32
  inode_v2_2 :: u32

record dir_entry =
  name_index :: u32
  inode_num :: u32

record directory =
  parent_entry :: u32
  first_entry :: u32

record chunk =
  block :: u32
  offset :: u32
  size_c :: u32

record string_table =
  buffer :: string
  index :: "u32 list"
  packed_index :: bool

record fs_options =
  packed_chunk_table :: bool
  packed_directories :: bool
  packed_shared_files_table :: bool

text \<open>
  An item of a plain (frozen \<open>vector<string>\<close>) table is a range of the mapped image:
  \<open>str_begin\<close> is the address of its first byte, \<open>str_bytes\<close> its content.
\<close>

record frozen_string =
  str_begin :: nat
  str_bytes :: string

record Meta =
  chunks :: "chunk list"
  directories :: "directory list"
  inodes :: "inode_data list"
  chunk_table :: "u32 list"
  entry_table_v2_2 :: "u32 list"
  symlink_table :: "u32 list"
  uids :: "u16 list"
  gids :: "u16 list"
  modes :: "u16 list"
  names :: "frozen_string list"
  symlinks :: "frozen_string list"
  block_size :: u32
  devices :: "u64 list option"
  options :: "fs_options option"
  dir_entries :: "dir_entry list option"
  shared_files_table :: "u32 list option"
  compact_names :: "string_table option"
  compact_symlinks :: "string_table option"

section \<open>Reader: consistency checks (metadata\_types.cpp)\<close>

subsection \<open>mode\_rank\<close>

text \<open>The file-type bits of \<open>st_mode\<close> (\<open>sys/stat.h\<close>).\<close>

definition S_IFMT :: u16 where "S_IFMT = 0xF000"
definition S_IFDIR :: u16 where "S_IFDIR = 0x4000"
definition S_IFLNK :: u16 where "S_IFLNK = 0xA000"
definition S_IFREG :: u16 where "S_IFREG = 0x8000"
definition S_IFBLK :: u16 where "S_IFBLK = 0x6000"
definition S_IFCHR :: u16 where "S_IFCHR = 0x2000"

definition mode_rank :: "u16 \<Rightarrow> nat" where
  "mode_rank mode =
     (let t = mode AND S_IFMT
      in if t = S_IFDIR then 0
         else if t = S_IFLNK then 1
         else if t = S_IFREG then 2
         else if t = S_IFBLK \<or> t = S_IFCHR then 3
         else 4)"

subsection \<open>check\_empty\_tables\<close>

definition check_empty_tables :: "Meta \<Rightarrow> error + unit" where
  "check_empty_tables meta =
     (if inodes meta = [] then Inl (runtime_error ''empty inodes table'')
      else if directories meta = [] then Inl (runtime_error ''empty directories table'')
      else if chunk_table meta = [] then Inl (runtime_error ''empty chunk_table table'')
      else if (case dir_entries meta of Some de \<Rightarrow> de = [] | None \<Rightarrow> False)
        then Inl (runtime_error ''empty dir_entries table'')
      else if dir_entries meta = None \<and> entry_table_v2_2 meta = []
        then Inl (runtime_error ''empty entry_table_v2_2 table'')
      else if modes meta = [] then Inl (runtime_error ''empty modes table'')
      else Inr ())"

subsection \<open>check\_index\_range\<close>

definition uint16_max :: nat where "uint16_max = 65535"
definition uint32_max :: nat where "uint32_max = 4294967295"

text \<open>The body of the loop over \<open>meta->inodes()\<close>.\<close>

definition check_inode_indices :: "nat \<Rightarrow> nat \<Rightarrow> nat \<Rightarrow> nat \<Rightarrow> bool \<Rightarrow> inode_data \<Rightarrow> error + unit" where
  "check_inode_indices num_modes num_uids num_gids num_names v2_2 ino =
     (if unat (mode_index ino) \<ge> num_modes then Inl (runtime_error ''mode_index out of range'')
      else if unat (owner_index ino) \<ge> num_uids \<and> unat (owner_index ino) > 0
        then Inl (runtime_error ''owner_index out of range'')
      else if unat (group_index ino) \<ge> num_gids \<and> unat (group_index ino) > 0
        then Inl (runtime_error ''group_index out of range'')
      else if v2_2 \<and> unat (name_index_v2_2 ino) \<ge> num_names \<and> unat (name_index_v2_2 ino) > 0
        then Inl (runtime_error ''name_index_v2_2 out of range'')
      else Inr ())"

text \<open>The body of the loop over \<open>*dep\<close>.\<close>

definition check_dir_entry_indices :: "nat \<Rightarrow> nat \<Rightarrow> dir_entry \<Rightarrow> error + unit" where
  "check_dir_entry_indices num_names num_inodes de =
     (if unat (name_index de) \<ge> num_names \<and> unat (name_index de) > 0
        then Inl (runtime_error ''name_index out of range'')
      else if unat (inode_num de) \<ge> num_inodes then Inl (runtime_error ''inode_num out of range'')
      else Inr ())"

text \<open>
  The number of names the \<open>dir_entries\<close> are checked against: the size of the plain table,
  replaced by the item count of the compact table when there is one.  An unpacked compact
  index holds one offset more than there are items, and must not be empty.
\<close>

definition dir_entry_num_names :: "Meta \<Rightarrow> error + nat" where
  "dir_entry_num_names meta =
     (case compact_names meta of
        None \<Rightarrow> Inr (length (names meta))
      | Some cn \<Rightarrow>
          if \<not> packed_index cn
          then (if length (index cn) = 0 then Inl (runtime_error ''empty compact_names index'')
                else Inr (length (index cn) - 1))
          else Inr (length (index cn)))"

definition check_index_range :: "Meta \<Rightarrow> error + unit" where
  "check_index_range meta =
     (let num_modes = length (modes meta);
          num_uids = length (uids meta);
          num_gids = length (gids meta);
          num_names = length (names meta);
          num_inodes = length (inodes meta);
          v2_2 = (dir_entries meta = None)
      in if num_modes \<ge> uint16_max then Inl (runtime_error ''invalid number of modes'')
         else if num_uids \<ge> uint16_max then Inl (runtime_error ''invalid number of uids'')
         else if num_gids \<ge> uint16_max then Inl (runtime_error ''invalid number of gids'')
         else if num_names \<ge> uint32_max then Inl (runtime_error ''invalid number of names'')
         else if num_inodes \<ge> uint32_max then Inl (runtime_error ''invalid number of inodes'')
         else and_then
           (for_each_check (check_inode_indices num_modes num_uids num_gids num_names v2_2)
              (inodes meta))
           (case dir_entries meta of
              Some dep \<Rightarrow>
                if length dep \<ge> uint32_max then Inl (runtime_error ''invalid number of dir_entries'')
                else (case dir_entry_num_names meta of
                        Inl e \<Rightarrow> Inl e
                      | Inr num_names' \<Rightarrow>
                          for_each_check (check_dir_entry_indices num_names' num_inodes) dep)
            | None \<Rightarrow>
                if length (entry_table_v2_2 meta) \<ge> uint32_max
                then Inl (runtime_error ''invalid number of entries'')
                else for_each_check
                       (\<lambda>ent. if unat ent \<ge> num_inodes
                              then Inl (runtime_error ''entry_table_v2_2 value out of range'')
                              else Inr ())
                       (entry_table_v2_2 meta)))"

subsection \<open>check\_packed\_tables\<close>

text \<open>\<open>std::accumulate\<close> with a \<open>size_t\<close> accumulator over \<open>uint32_t\<close> items.\<close>

definition accumulate_size_t :: "u32 list \<Rightarrow> nat \<Rightarrow> nat" where
  "accumulate_size_t xs init = fold (\<lambda>x n. size_t_add n (unat x)) xs init"

definition check_directories_table :: "Meta \<Rightarrow> error + unit" where
  "check_directories_table meta =
     (if (case options meta of Some opt \<Rightarrow> packed_directories opt | None \<Rightarrow> False)
      then (if list_ex (\<lambda>i. parent_entry i \<noteq> 0) (directories meta)
            then Inl (runtime_error ''parent_entry set in packed directory'')
            else (case dir_entries meta of
                    None \<Rightarrow> Inl undefined_behaviour
                  | Some de \<Rightarrow>
                      if accumulate_size_t (map first_entry (directories meta)) 0 \<noteq> length de
                      then Inl (runtime_error ''first_entry inconsistency in packed directories'')
                      else Inr ()))
      else (let num_entries = (case dir_entries meta of Some de \<Rightarrow> length de
                                                     | None \<Rightarrow> length (inodes meta))
            in if \<not> sorted (map first_entry (directories meta))
               then Inl (runtime_error ''first_entry inconsistency'')
               else for_each_check
                      (\<lambda>d. if unat (first_entry d) > num_entries
                             then Inl (runtime_error ''first_entry out of range'')
                           else if unat (parent_entry d) \<ge> num_entries
                             then Inl (runtime_error ''parent_entry out of range'')
                           else Inr ())
                      (directories meta)))"

definition check_chunk_table :: "Meta \<Rightarrow> error + unit" where
  "check_chunk_table meta =
     (if (case options meta of Some opt \<Rightarrow> packed_chunk_table opt | None \<Rightarrow> False)
      then (if accumulate_size_t (chunk_table meta) 0 \<noteq> length (chunks meta)
            then Inl (runtime_error ''packed chunk_table inconsistency'')
            else Inr ())
      else (if \<not> sorted (chunk_table meta)
            then Inl (runtime_error ''chunk_table inconsistency'')
            else if chunk_table meta = [] then Inl undefined_behaviour
            else if unat (last (chunk_table meta)) \<noteq> length (chunks meta)
            then Inl (runtime_error ''chunk_table inconsistency'')
            else Inr ()))"

definition check_packed_tables :: "Meta \<Rightarrow> error + unit" where
  "check_packed_tables meta =
     (if length (directories meta) \<ge> uint32_max
        then Inl (runtime_error ''invalid number of directories'')
      else if length (chunk_table meta) \<ge> uint32_max
        then Inl (runtime_error ''invalid number of chunk_table entries'')
      else and_then (check_directories_table meta) (check_chunk_table meta))"

subsection \<open>check\_compact\_strings and check\_plain\_strings\<close>

text \<open>
  \<open>std::accumulate(v.index().begin(), v.index().end(), 0)\<close>: the initial value \<open>0\<close> is an
  \<open>int\<close>, so the accumulator is a 32-bit \<open>int\<close>; each step adds a \<open>uint32_t\<close> in 32-bit
  unsigned arithmetic and stores the bit pattern back.  The result is then converted to
  \<open>size_t\<close>, which extends the sign bit.
\<close>

definition int_to_size_t :: "u32 \<Rightarrow> nat" where
  "int_to_size_t a = (if unat a < 2 ^ 31 then unat a else 2 ^ 64 - 2 ^ 32 + unat a)"

definition accumulate_int :: "u32 list \<Rightarrow> u32" where
  "accumulate_int xs = fold (\<lambda>x a. a + x) xs 0"

definition check_compact_strings :: "string_table \<Rightarrow> nat \<Rightarrow> nat \<Rightarrow> string \<Rightarrow> error + unit" where
  "check_compact_strings v expected_num max_item_len what =
     (let index_size = (if \<not> packed_index v \<and> length (index v) > 0
                        then length (index v) - 1 else length (index v))
      in if index_size \<noteq> expected_num
         then Inl (runtime_error (''unexpected number of compact '' @ what))
         else if index v \<noteq> [] \<and> \<not> packed_index v \<and> \<not> sorted (index v)
         then Inl (runtime_error (''inconsistent index for compact '' @ what))
         else
           (let expected_data_size =
                  (if index v = [] then 0
                   else if packed_index v then int_to_size_t (accumulate_int (index v))
                   else unat (last (index v)));
                longest_item_len =
                  (if index v \<noteq> [] \<and> packed_index v then unat (Max (set (index v))) else 0)
            in if length (buffer v) \<noteq> expected_data_size
               then Inl (runtime_error (''data size mismatch for compact '' @ what))
               else if longest_item_len > max_item_len
               then Inl (runtime_error (''invalid item length in compact '' @ what))
               else Inr ()))"

definition check_plain_strings :: "frozen_string list \<Rightarrow> nat \<Rightarrow> nat \<Rightarrow> string \<Rightarrow> error + unit" where
  "check_plain_strings v expected_num max_item_len what =
     (if length v \<noteq> expected_num then Inl (runtime_error (''unexpected number of '' @ what))
      else if list_ex (\<lambda>s. length (str_bytes s) > max_item_len) v
      then Inl (runtime_error (''unexpectedly long item in '' @ what))
      else
        (let total_size = fold (\<lambda>s n. size_t_add n (length (str_bytes s))) v 0
         in if v \<noteq> [] \<and>
               total_size \<noteq> size_t_sub (str_begin (last v) + length (str_bytes (last v)))
                                        (str_begin (hd v))
            then Inl (runtime_error (''unexpectedly data size in '' @ what))
            else Inr ()))"

subsection \<open>check\_string\_tables\<close>

definition max_name_len :: nat where "max_name_len = 512"
definition max_symlink_len :: nat where "max_symlink_len = 4096"

text \<open>
  \<open>std::max_element(...)->name_index() + 1\<close> is computed in \<open>uint32_t\<close> and then widened.
\<close>

definition expected_num_names :: "Meta \<Rightarrow> nat" where
  "expected_num_names meta =
     (case dir_entries meta of
        Some dep \<Rightarrow> if length dep > 1 then unat (Max (set (map name_index dep)) + 1) else 0
      | None \<Rightarrow> if length (inodes meta) > 1
                then unat (Max (set (map name_index_v2_2 (inodes meta))) + 1) else 0)"

definition expected_num_symlink_strings :: "Meta \<Rightarrow> nat" where
  "expected_num_symlink_strings meta =
     (if symlink_table meta \<noteq> [] then unat (Max (set (symlink_table meta)) + 1) else 0)"

definition check_string_tables :: "Meta \<Rightarrow> error + unit" where
  "check_string_tables meta =
     and_then
       (case compact_names meta of
          Some cn \<Rightarrow> check_compact_strings cn (expected_num_names meta) max_name_len ''names''
        | None \<Rightarrow> check_plain_strings (names meta) (expected_num_names meta) max_name_len ''names'')
       (case compact_symlinks meta of
          Some cs \<Rightarrow> check_compact_strings cs (expected_num_symlink_strings meta)
                      max_symlink_len ''symlink strings''
        | None \<Rightarrow> check_plain_strings (symlinks meta) (expected_num_symlink_strings meta)
                    max_symlink_len ''symlink strings'')"

subsection \<open>check\_chunks\<close>

definition check_chunks :: "Meta \<Rightarrow> error + unit" where
  "check_chunks meta =
     (let bs = block_size meta
      in if bs = 0 \<or> bs AND (bs - 1) \<noteq> 0 then Inl (runtime_error ''invalid block size'')
         else if length (chunks meta) \<ge> uint32_max then Inl (runtime_error ''invalid number of chunks'')
         else for_each_check
                (\<lambda>c. if offset c \<ge> bs \<or> size_c c > bs
                       then Inl (runtime_error ''chunk offset/size out of range'')
                     else if offset c + size_c c > bs
                       then Inl (runtime_error ''chunk end outside of block'')
                     else Inr ())
                (chunks meta))"

subsection \<open>check\_partitioning\<close>

text \<open>
  \<open>std::is_partitioned\<close>: no element after the first one that fails the predicate satisfies
  it.  \<open>std::partition_point\<close> of a partitioned range: the number of leading elements that
  satisfy the predicate.
\<close>

definition is_partitioned :: "('a \<Rightarrow> bool) \<Rightarrow> 'a list \<Rightarrow> bool" where
  "is_partitioned P xs = (\<not> list_ex P (dropWhile P xs))"

definition partition_point :: "('a \<Rightarrow> bool) \<Rightarrow> 'a list \<Rightarrow> nat" where
  "partition_point P xs = length (takeWhile P xs)"

text \<open>
  The rank the predicate of \<open>check_partitioning\<close> looks at, for every slot of the partitioned
  range: the rows of \<open>inodes\<close> in the current layout, the values of \<open>entry_table_v2_2\<close>
  (indices into \<open>inodes\<close>) in the v2.2 layout.  The table lookups are unchecked in the
  source.
\<close>

definition inode_ranks :: "Meta \<Rightarrow> error + nat list" where
  "inode_ranks meta =
     (case dir_entries meta of
        Some dep \<Rightarrow>
          if list_all (\<lambda>ino. unat (mode_index ino) < length (modes meta)) (inodes meta)
          then Inr (map (\<lambda>ino. mode_rank (modes meta ! unat (mode_index ino))) (inodes meta))
          else Inl undefined_behaviour
      | None \<Rightarrow>
          if list_all (\<lambda>ent. unat ent < length (inodes meta) \<and>
                             unat (mode_index (inodes meta ! unat ent)) < length (modes meta))
               (entry_table_v2_2 meta)
          then Inr (map (\<lambda>ent. mode_rank (modes meta ! unat (mode_index (inodes meta ! unat ent))))
                      (entry_table_v2_2 meta))
          else Inl undefined_behaviour)"

definition check_partitioning :: "Meta \<Rightarrow> error + nat list" where
  "check_partitioning meta =
     (case inode_ranks meta of
        Inl e \<Rightarrow> Inl e
      | Inr ranks \<Rightarrow>
          if list_ex (\<lambda>r. \<not> is_partitioned (\<lambda>k. k < r) ranks) [0..<6]
          then Inl (runtime_error (if dir_entries meta = None then ''entry_table_v2_2 inconsistency''
                                   else ''inode table inconsistency''))
          else Inr (map (\<lambda>r. partition_point (\<lambda>k. k < r) ranks) [0..<6]))"

subsection \<open>check\_metadata\<close>

text \<open>
  \<open>num_reg_unique\<close> and \<open>num_reg_shared\<close> as \<open>check_metadata\<close> derives them from
  \<open>chunk_table\<close> and \<open>shared_files_table\<close>.
\<close>

definition num_reg_shared_packed :: "u32 list \<Rightarrow> nat" where
  "num_reg_shared_packed sfp = accumulate_size_t sfp ((2 * length sfp) mod 2 ^ 64)"

definition file_counts :: "Meta \<Rightarrow> error + (nat \<times> nat)" where
  "file_counts meta =
     (let num_reg_unique = size_t_sub (length (chunk_table meta)) 1
      in case shared_files_table meta of
           None \<Rightarrow> Inr (num_reg_unique, 0)
         | Some sfp \<Rightarrow>
             (case options meta of
                None \<Rightarrow> Inl undefined_behaviour
              | Some opt \<Rightarrow>
                  if packed_shared_files_table opt
                  then Inr (size_t_sub num_reg_unique (length sfp), num_reg_shared_packed sfp)
                  else if \<not> sorted sfp
                  then Inl (runtime_error ''unpacked shared_files_table is not sorted'')
                  else Inr (if sfp \<noteq> [] then size_t_sub num_reg_unique (unat (last sfp + 1))
                            else num_reg_unique,
                            length sfp)))"

definition num_dev :: "Meta \<Rightarrow> nat" where
  "num_dev meta = (case devices meta of Some d \<Rightarrow> length d | None \<Rightarrow> 0)"

text \<open>The loop over the inodes of the v2.2 layout at the end of \<open>check_metadata\<close>.\<close>

definition check_inode_v2_2 :: "Meta \<Rightarrow> nat list \<Rightarrow> inode_data \<Rightarrow> error + unit" where
  "check_inode_v2_2 meta offsets ino =
     (if \<not> unat (mode_index ino) < length (modes meta) then Inl undefined_behaviour
      else
        (let mode = modes meta ! unat (mode_index ino);
             i = unat (inode_v2_2 ino);
             base = mode_rank mode
         in if i < offsets ! base \<or> (i \<ge> offsets ! (base + 1) \<and> i > offsets ! base)
            then Inl (runtime_error ''inode_v2_2 out of range'')
            else Inr ()))"

definition check_counts :: "Meta \<Rightarrow> nat list \<Rightarrow> error + unit" where
  "check_counts meta offsets =
     (case file_counts meta of
        Inl e \<Rightarrow> Inl e
      | Inr (num_reg_unique, num_reg_shared) \<Rightarrow>
          if size_t_sub (length (directories meta)) 1 \<noteq> offsets ! 1
            then Inl (runtime_error ''wrong number of directories'')
          else if length (symlink_table meta) \<noteq> size_t_sub (offsets ! 2) (offsets ! 1)
            then Inl (runtime_error ''wrong number of links'')
          else if size_t_add num_reg_unique num_reg_shared \<noteq> size_t_sub (offsets ! 3) (offsets ! 2)
            then Inl (runtime_error ''wrong number of files'')
          else if num_dev meta \<noteq> size_t_sub (offsets ! 4) (offsets ! 3)
            then Inl (runtime_error ''wrong number of devices'')
          else if dir_entries meta = None
            then for_each_check (check_inode_v2_2 meta offsets) (inodes meta)
          else Inr ())"

definition check_metadata :: "Meta \<Rightarrow> bool \<Rightarrow> error + Meta" where
  "check_metadata meta check =
     (if check
      then and_then (check_empty_tables meta)
          (and_then (check_index_range meta)
          (and_then (check_packed_tables meta)
          (and_then (check_string_tables meta)
          (and_then (check_chunks meta)
            (case check_partitioning meta of
               Inl e \<Rightarrow> Inl e
             | Inr offsets \<Rightarrow> and_then (check_counts meta offsets) (Inr meta))))))
      else Inr meta)"

section \<open>Builder: table packing (scanner.cpp)\<close>

subsection \<open>save\_shared\_files\_visitor::pack\_shared\_files\<close>

text \<open>
  The loop over \<open>shared_files_\<close>, with its state \<open>count\<close>, \<open>index\<close> (here \<open>idx\<close>) and
  \<open>compressed\<close>.  All three are \<open>uint32_t\<close>.
\<close>

fun pack_shared_loop :: "u32 list \<Rightarrow> u32 \<Rightarrow> u32 \<Rightarrow> u32 list \<Rightarrow> error + (u32 \<times> u32 \<times> u32 list)" where
  "pack_shared_loop [] count idx compressed = Inr (count, idx, compressed)"
| "pack_shared_loop (i # rest) count idx compressed =
     (if i = idx then pack_shared_loop rest (count + 1) idx compressed
      else if i \<noteq> idx + 1 then Inl (check_failure ''inconsistent shared files vector'')
      else if \<not> 2 \<le> count then Inl (check_failure ''unique file in shared files vector'')
      else pack_shared_loop rest 1 (idx + 1) (compressed @ [count - 2]))"

definition pack_shared_files :: "u32 list \<Rightarrow> error + u32 list" where
  "pack_shared_files shared_files =
     (if shared_files = [] then Inr shared_files
      else if \<not> sorted shared_files then Inl (check_failure ''shared files vector not sorted'')
      else case pack_shared_loop shared_files 0 0 [] of
          Inl e \<Rightarrow> Inl e
        | Inr (count, idx, compressed) \<Rightarrow>
            (let compressed' = compressed @ [count - 2]
             in if length compressed' \<noteq> unat (last shared_files + 1)
                then Inl (check_failure ''unexpected compressed vector size'')
                else Inr compressed'))"

text \<open>
  Modelled from the spec: the inverse of the shared-files packing (the reader's unpacking
  function is defined outside the files verified here).  "Packed form stores \<open>count-2\<close> per run so
  that 0 means pair": the \<open>k\<close>-th packed value \<open>c\<close> stands for \<open>c + 2\<close> copies of \<open>k\<close>.
\<close>

fun unpack_shared_from :: "u32 \<Rightarrow> u32 list \<Rightarrow> u32 list" where
  "unpack_shared_from idx [] = []"
| "unpack_shared_from idx (c # cs) = replicate (unat c + 2) idx @ unpack_shared_from (idx + 1) cs"

definition unpack_shared :: "u32 list \<Rightarrow> u32 list" where
  "unpack_shared packed = unpack_shared_from 0 packed"

subsection \<open>scanner\_::scan: the chunk table\<close>

text \<open>
  What \<open>im.for_each_inode_in_order\<close> hands to the callback: the inode's number (\<open>num()\<close>)
  and the chunks \<open>append_chunks_to\<close> appends.
\<close>

record inode =
  num :: u32
  inode_chunks :: "chunk list"

text \<open>
  \<open>DWARFS_NOTHROW(mv2.chunk_table()->at(i)) = mv2.chunks()->size()\<close>: the size is narrowed to
  the \<open>uint32_t\<close> of the table; an index outside the table aborts.
\<close>

definition chunk_table_store :: "nat \<Rightarrow> u32 list \<times> chunk list \<Rightarrow> error + (u32 list \<times> chunk list)" where
  "chunk_table_store i st =
     (case st of (table, cs) \<Rightarrow>
        if i < length table then Inr (table[i := of_nat (length cs)], cs)
        else Inl (check_failure ''out_of_range''))"

fun save_chunks_loop :: "inode list \<Rightarrow> u32 list \<times> chunk list \<Rightarrow> error + (u32 list \<times> chunk list)" where
  "save_chunks_loop [] st = Inr st"
| "save_chunks_loop (ino # rest) st =
     (case chunk_table_store (unat (num ino)) st of
        Inl e \<Rightarrow> Inl e
      | Inr (table, cs) \<Rightarrow> save_chunks_loop rest (table, cs @ inode_chunks ino))"

text \<open>
  \<open>inos\<close> is the sequence \<open>for_each_inode_in_order\<close> visits, \<open>im_count\<close> is \<open>im.count()\<close>.
  The result is \<open>mv2.chunk_table\<close> and \<open>mv2.chunks\<close> before packing.
\<close>

definition save_chunks :: "inode list \<Rightarrow> nat \<Rightarrow> error + (u32 list \<times> chunk list)" where
  "save_chunks inos im_count =
     (case save_chunks_loop inos (replicate (im_count + 1) 0, []) of
        Inl e \<Rightarrow> Inl e
      | Inr st \<Rightarrow> chunk_table_store im_count st)"

text \<open>\<open>std::adjacent_difference\<close> on \<open>uint32_t\<close>, in place.\<close>

fun adjacent_difference_from :: "u32 \<Rightarrow> u32 list \<Rightarrow> u32 list" where
  "adjacent_difference_from prev [] = []"
| "adjacent_difference_from prev (x # xs) = (x - prev) # adjacent_difference_from x xs"

definition adjacent_difference :: "u32 list \<Rightarrow> u32 list" where
  "adjacent_difference xs = (case xs of [] \<Rightarrow> [] | x # rest \<Rightarrow> x # adjacent_difference_from x rest)"

definition pack_chunk_table :: "bool \<Rightarrow> u32 list \<Rightarrow> u32 list" where
  "pack_chunk_table pack table = (if pack then adjacent_difference table else table)"

subsection \<open>scanner\_::scan: packing the directories\<close>

text \<open>
  The loop over \<open>mv2.directories\<close> under \<open>options_.pack_directories\<close>; \<open>last_first_entry\<close>
  is its state.
\<close>

fun pack_directories_loop :: "u32 \<Rightarrow> directory list \<Rightarrow> directory list" where
  "pack_directories_loop last_first_entry [] = []"
| "pack_directories_loop last_first_entry (d # ds) =
     (let delta = first_entry d - last_first_entry
      in \<lparr>parent_entry = 0, first_entry = delta\<rparr> # pack_directories_loop (first_entry d) ds)"

definition pack_directories :: "bool \<Rightarrow> directory list \<Rightarrow> directory list" where
  "pack_directories pack ds = (if pack then pack_directories_loop 0 ds else ds)"

section \<open>Builder: scanning one entry (scanner\_::add\_entry)\<close>

datatype entry_type = E_FILE | E_DIR | E_LINK | E_DEVICE | E_OTHER

record entry =
  path :: string
  etype :: entry_type
  st_size :: nat

record progress =
  errors :: nat
  dirs_found :: nat
  files_found :: nat
  symlinks_found :: nat
  symlinks_scanned :: nat
  specials_found :: nat

record script =
  has_filter :: bool
  filter_fn :: "entry \<Rightarrow> bool"
  has_transform :: bool
  transform_fn :: "entry \<Rightarrow> entry"

text \<open>
  What \<open>add_entry\<close> reads from its collaborators, all of them defined outside the files
  verified here:
  \<^item> \<open>created\<close>: the outcome of \<open>entry_->create(*os_, name, parent)\<close>, a \<open>std::system_error\<close>
    (\<open>Inl\<close> of its \<open>what()\<close>) or a possibly null pointer;
  \<^item> \<open>scr\<close>: the script, when one is set;
  \<^item> \<open>debug_filter_function\<close>: the optional callback of the scanner options, called with
    \<open>exclude\<close> and the (possibly null) entry; what it prints is a line of \<open>debug_out\<close>;
  \<^item> \<open>access\<close>: \<open>os_->access(path, R_OK)\<close>, zero when the file is readable;
  \<^item> \<open>entry_scan\<close>: \<open>pe->scan(*os_, prog)\<close>, which may throw a \<open>std::system_error\<close>;
  \<^item> \<open>fs_scan\<close>: \<open>fs.scan(file)\<close> of the file scanner, acting on the file scanner's own
    state and on the progress counters it holds a reference to; it may throw a
    \<open>std::system_error\<close>.
\<close>

record 'fs scan_env =
  created :: "string + entry option"
  scr :: "script option"
  debug_filter_function :: "(bool \<Rightarrow> entry option \<Rightarrow> string) option"
  with_devices :: bool
  with_specials :: bool
  access :: "string \<Rightarrow> int"
  entry_scan :: "entry \<Rightarrow> progress \<Rightarrow> string + (entry \<times> progress)"
  fs_scan :: "entry \<Rightarrow> 'fs \<Rightarrow> progress \<Rightarrow> string + ('fs \<times> progress)"

text \<open>
  The state \<open>add_entry\<close> changes: the progress counters, the children of \<open>parent\<close>, the
  file scanner, the lines written with \<open>LOG_ERROR\<close> and the output of the debug callback.
  (Lines written with \<open>LOG_DEBUG\<close> are not kept.)
\<close>

record 'fs scan_state =
  prog :: progress
  parent_entries :: "entry list"
  fs :: 'fs
  error_log :: "string list"
  debug_out :: "string list"

definition log_error :: "string \<Rightarrow> 'fs scan_state \<Rightarrow> 'fs scan_state" where
  "log_error msg st = st\<lparr>error_log := error_log st @ [msg]\<rparr>"

definition count_error :: "'fs scan_state \<Rightarrow> 'fs scan_state" where
  "count_error st = st\<lparr>prog := (prog st)\<lparr>errors := errors (prog st) + 1\<rparr>\<rparr>"

text \<open>The \<open>catch (const std::system_error& e)\<close> handler.\<close>

definition catch_system_error :: "string \<Rightarrow> 'fs scan_state \<Rightarrow> error + (entry option \<times> 'fs scan_state)" where
  "catch_system_error what st = Inr (None, count_error (log_error (''error reading entry: '' @ what) st))"

text \<open>
  The \<open>if (script_)\<close> block: whether the entry is excluded, and the entry after the transform.
  \<open>pe\<close> is dereferenced, null or not, by \<open>script_->filter(*pe)\<close> when the script has a filter
  and by \<open>script_->transform(*pe)\<close> when the filter (if any) lets the entry through and the
  script has a transform; with neither, \<open>pe\<close> is not touched.
\<close>

definition apply_script :: "script option \<Rightarrow> entry option \<Rightarrow> error + (bool \<times> entry option)" where
  "apply_script sc pe =
     (case sc of
        None \<Rightarrow> Inr (False, pe)
      | Some s \<Rightarrow>
          if has_filter s
          then (case pe of
                  None \<Rightarrow> Inl undefined_behaviour
                | Some e \<Rightarrow>
                    if \<not> filter_fn s e then Inr (True, pe)
                    else if has_transform s then Inr (False, Some (transform_fn s e))
                    else Inr (False, pe))
          else if has_transform s
          then (case pe of
                  None \<Rightarrow> Inl undefined_behaviour
                | Some e \<Rightarrow> Inr (False, Some (transform_fn s e)))
          else Inr (False, pe))"

text \<open>
  \<open>if (debug_filter) (*options_.debug_filter_function)(exclude, pe.get())\<close>: the optional is
  dereferenced unchecked.
\<close>

definition call_debug_filter ::
  "'fs scan_env \<Rightarrow> bool \<Rightarrow> bool \<Rightarrow> entry option \<Rightarrow> 'fs scan_state \<Rightarrow> error + 'fs scan_state" where
  "call_debug_filter env debug_filter exclude pe st =
     (if debug_filter
      then (case debug_filter_function env of
              None \<Rightarrow> Inl undefined_behaviour
            | Some f \<Rightarrow> Inr (st\<lparr>debug_out := debug_out st @ [f exclude pe]\<rparr>))
      else Inr st)"

text \<open>
  The second \<open>switch\<close>: counting the entry and scanning it.  (Its \<open>default\<close> branch is not
  reached by any of the five entry types.)
\<close>

definition count_and_scan ::
  "'fs scan_env \<Rightarrow> bool \<Rightarrow> entry \<Rightarrow> 'fs scan_state \<Rightarrow> error + (entry option \<times> 'fs scan_state)" where
  "count_and_scan env debug_filter pe st =
     (let p = prog st;
          scanned = (\<lambda>st'. if debug_filter then Inr (Some pe, st')
                           else (case entry_scan env pe (prog st') of
                                   Inl what \<Rightarrow> catch_system_error what st'
                                 | Inr (pe', p') \<Rightarrow>
                                     Inr (Some pe', st'\<lparr>prog := p',
                                            parent_entries := butlast (parent_entries st') @ [pe']\<rparr>)))
      in case etype pe of
           E_DIR \<Rightarrow> scanned (st\<lparr>prog := p\<lparr>dirs_found := dirs_found p + 1\<rparr>\<rparr>)
         | E_FILE \<Rightarrow>
             (let st' = st\<lparr>prog := p\<lparr>files_found := files_found p + 1\<rparr>\<rparr>
              in if debug_filter then Inr (Some pe, st')
                 else (case fs_scan env pe (fs st') (prog st') of
                         Inl what \<Rightarrow> catch_system_error what st'
                       | Inr (fs', p') \<Rightarrow> Inr (Some pe, st'\<lparr>prog := p', fs := fs'\<rparr>)))
         | E_LINK \<Rightarrow>
             (case scanned (st\<lparr>prog := p\<lparr>symlinks_found := symlinks_found p + 1\<rparr>\<rparr>) of
                Inr (Some pe', st') \<Rightarrow>
                  Inr (Some pe', st'\<lparr>prog := (prog st')\<lparr>symlinks_scanned := symlinks_scanned (prog st') + 1\<rparr>\<rparr>)
              | other \<Rightarrow> other)
         | E_DEVICE \<Rightarrow> scanned (st\<lparr>prog := p\<lparr>specials_found := specials_found p + 1\<rparr>\<rparr>)
         | E_OTHER \<Rightarrow> scanned (st\<lparr>prog := p\<lparr>specials_found := specials_found p + 1\<rparr>\<rparr>))"

text \<open>
  \<open>add_entry\<close>.  The first \<open>switch\<close> is the chain of \<open>if\<close>s on the type of the entry;
  \<open>parent->add(pe)\<close> appends to \<open>parent_entries\<close>.
\<close>

definition add_entry ::
  "'fs scan_env \<Rightarrow> bool \<Rightarrow> 'fs scan_state \<Rightarrow> error + (entry option \<times> 'fs scan_state)" where
  "add_entry env debug_filter st =
     (case created env of
        Inl what \<Rightarrow> catch_system_error what st
      | Inr pe0 \<Rightarrow>
          (case apply_script (scr env) pe0 of
             Inl err \<Rightarrow> Inl err
           | Inr (exclude, pe_opt) \<Rightarrow>
               (case call_debug_filter env debug_filter exclude pe_opt st of
                  Inl err \<Rightarrow> Inl err
                | Inr st0 \<Rightarrow>
                    if exclude then Inr (None, st0)
                    else (case pe_opt of
                            None \<Rightarrow> Inr (None, st0)
                          | Some pe \<Rightarrow>
                              if etype pe = E_FILE
                              then (if access env (path pe) \<noteq> 0
                                    then (let st' = count_error
                                                      (log_error (''cannot access '' @ path pe
                                                                  @ '', creating empty file'') st0);
                                              pe' = pe\<lparr>st_size := 0\<rparr>
                                          in count_and_scan env debug_filter pe'
                                               (st'\<lparr>parent_entries := parent_entries st' @ [pe']\<rparr>))
                                    else count_and_scan env debug_filter pe
                                           (st0\<lparr>parent_entries := parent_entries st0 @ [pe]\<rparr>))
                              else if etype pe = E_DEVICE \<and> \<not> with_devices env then Inr (None, st0)
                              else if etype pe = E_OTHER \<and> \<not> with_specials env then Inr (None, st0)
                              else count_and_scan env debug_filter pe
                                     (st0\<lparr>parent_entries := parent_entries st0 @ [pe]\<rparr>)))))"
section \<open>Reader: unpacking and views (metadata\_types.cpp)\<close>

subsection \<open>unpack\_directories\<close>

text \<open>
  "delta-decode first entries first": \<open>directories\<close> starts as \<open>metadir.size()\<close>
  value-initialised rows; row 0 takes its \<open>first_entry\<close> from \<open>metadir\<close>, every later row adds
  its delta to the row before.
\<close>

definition decode_step :: "directory list \<Rightarrow> nat \<Rightarrow> directory list \<Rightarrow> directory list" where
  "decode_step metadir i ds =
     ds[i := (ds ! i)\<lparr>first_entry := first_entry (ds ! (i - 1)) + first_entry (metadir ! i)\<rparr>]"

definition delta_decode :: "directory list \<Rightarrow> directory list" where
  "delta_decode metadir =
     fold (decode_step metadir) [1..<length metadir]
       ((replicate (length metadir) \<lparr>parent_entry = 0, first_entry = 0\<rparr>)
          [0 := \<lparr>parent_entry = 0, first_entry = first_entry (metadir ! 0)\<rparr>])"

lemma u32_less_unat_Suc:
  fixes e :: u32
  assumes "e < e_end"
  shows "unat (e + 1) = Suc (unat e)"
proof -
  have "unat e < unat e_end" using assms by (simp add: word_less_nat_alt)
  moreover have "unat e_end < 2 ^ 32" using unsigned_less [of e_end, where ?'a = nat] by simp
  ultimately have "unat e + unat (1::u32) < 2 ^ LENGTH(32)" by simp
  then show ?thesis by (simp add: unat_add_lem [THEN iffD1])
qed

text \<open>
  The inner loop \<open>for (auto e = beg; e < end; ++e)\<close>; its state is the queue and the
  \<open>directories\<close> vector.  \<open>dirent[e]\<close> is an unchecked read.
\<close>

function scan_entries ::
  "dir_entry list \<Rightarrow> u32 \<Rightarrow> u32 \<Rightarrow> u32 \<Rightarrow> u32 list \<times> directory list \<Rightarrow> error + (u32 list \<times> directory list)" where
  "scan_entries dirent parent e e_end st =
     (if e < e_end
      then (if \<not> unat e < length dirent then Inl undefined_behaviour
            else (let e_ino = inode_num (dirent ! unat e)
                  in if unat e_ino < size_t_sub (length (snd st)) 1
                     then scan_entries dirent parent (e + 1) e_end
                            (fst st @ [e],
                             (snd st)[unat e_ino := (snd st ! unat e_ino)\<lparr>parent_entry := parent\<rparr>])
                     else scan_entries dirent parent (e + 1) e_end st))
      else Inr st)"
  by pat_completeness auto
termination
  by (relation "measure (\<lambda>(dirent, parent, e, e_end, st). unat e_end - unat e)")
     (auto simp: u32_less_unat_Suc word_less_nat_alt)

declare scan_entries.simps [simp del]

text \<open>
  The \<open>while (!queue.empty())\<close> loop.  Nothing in the source bounds the number of rounds
  (an entry may be queued again and again when the table is malformed), so the loop is a
  partial function: \<open>None\<close> is a run that never returns.
\<close>

partial_function (option) unpack_loop ::
  "dir_entry list \<Rightarrow> u32 list \<Rightarrow> directory list \<Rightarrow> (error + directory list) option" where
  "unpack_loop dirent queue dirs =
     (case queue of
        [] \<Rightarrow> Some (Inr dirs)
      | parent # rest \<Rightarrow>
          if \<not> unat parent < length dirent then Some (Inl undefined_behaviour)
          else (let p_ino = inode_num (dirent ! unat parent)
                in if \<not> (unat p_ino < length dirs \<and> unat (p_ino + 1) < length dirs)
                   then Some (Inl undefined_behaviour)
                   else (let beg = first_entry (dirs ! unat p_ino);
                             e_end = first_entry (dirs ! unat (p_ino + 1))
                         in case scan_entries dirent parent beg e_end (rest, dirs) of
                              Inl err \<Rightarrow> Some (Inl err)
                            | Inr (queue', dirs') \<Rightarrow> unpack_loop dirent queue' dirs')))"

declare unpack_loop.simps [code]

definition unpack_directories :: "Meta \<Rightarrow> (error + directory list) option" where
  "unpack_directories meta =
     (if (case options meta of Some opts \<Rightarrow> packed_directories opts | None \<Rightarrow> False)
      then (case dir_entries meta of
              None \<Rightarrow> Some (Inl undefined_behaviour)
            | Some dirent \<Rightarrow>
                if directories meta = [] then Some (Inl undefined_behaviour)
                else unpack_loop dirent [0] (delta_decode (directories meta)))
      else Some (Inr []))"

subsection \<open>global\_metadata\<close>

text \<open>
  \<open>g_meta\<close> is \<open>meta_\<close>, \<open>g_directories_storage\<close> is \<open>directories_storage_\<close> (\<open>directories_\<close> is
  null exactly when it is empty), \<open>g_names\<close> is the content of the \<open>string_table\<close> \<open>names_\<close>,
  item by item.
\<close>

record global_metadata =
  g_meta :: Meta
  g_directories_storage :: "directory list"
  g_names :: "string list"

text \<open>
  The constructor.  The \<open>string_table\<close> class that decodes the names is defined
  outside the files verified here; the decoded items are a parameter.
\<close>

definition make_global_metadata :: "Meta \<Rightarrow> bool \<Rightarrow> string list \<Rightarrow> (error + global_metadata) option" where
  "make_global_metadata meta check_consistency decoded_names =
     (case check_metadata meta check_consistency of
        Inl e \<Rightarrow> Some (Inl e)
      | Inr meta' \<Rightarrow>
          (case unpack_directories meta' of
             None \<Rightarrow> None
           | Some (Inl e) \<Rightarrow> Some (Inl e)
           | Some (Inr storage) \<Rightarrow>
               Some (Inr \<lparr>g_meta = meta', g_directories_storage = storage, g_names = decoded_names\<rparr>)))"

definition g_directory :: "global_metadata \<Rightarrow> u32 \<Rightarrow> error + directory" where
  "g_directory g ino =
     (let ds = (if g_directories_storage g \<noteq> [] then g_directories_storage g
                else directories (g_meta g))
      in if unat ino < length ds then Inr (ds ! unat ino) else Inl undefined_behaviour)"

definition first_dir_entry :: "global_metadata \<Rightarrow> u32 \<Rightarrow> error + u32" where
  "first_dir_entry g ino = map_sum id first_entry (g_directory g ino)"

definition parent_dir_entry :: "global_metadata \<Rightarrow> u32 \<Rightarrow> error + u32" where
  "parent_dir_entry g ino = map_sum id parent_entry (g_directory g ino)"

subsection \<open>directory\_view::parent\_inode\<close>

definition parent_inode :: "global_metadata \<Rightarrow> u32 \<Rightarrow> error + u32" where
  "parent_inode g inode_num' =
     (if inode_num' = 0 then Inr 0
      else (case parent_dir_entry g inode_num' of
              Inl err \<Rightarrow> Inl err
            | Inr ent \<Rightarrow>
                (case dir_entries (g_meta g) of
                   Some e \<Rightarrow> if unat ent < length e then Inr (inode_num (e ! unat ent))
                             else Inl undefined_behaviour
                 | None \<Rightarrow> Inr ent)))"

subsection \<open>dir\_entry\_view\<close>

datatype entry_variant = DirEntryView dir_entry | InodeView inode_data

record dir_entry_view =
  variant :: entry_variant
  self_index :: u32
  parent_index :: u32

definition is_root :: "dir_entry_view \<Rightarrow> bool" where
  "is_root view =
     (case variant view of DirEntryView dev \<Rightarrow> inode_num dev = 0 | InodeView iv \<Rightarrow> inode_v2_2 iv = 0)"

text \<open>\<open>dir_entry_view::name()\<close>; both table lookups are unchecked.\<close>

definition view_name :: "global_metadata \<Rightarrow> dir_entry_view \<Rightarrow> error + string" where
  "view_name g view =
     (case variant view of
        DirEntryView dev \<Rightarrow>
          if unat (name_index dev) < length (g_names g) then Inr (g_names g ! unat (name_index dev))
          else Inl undefined_behaviour
      | InodeView iv \<Rightarrow>
          if unat (name_index_v2_2 iv) < length (names (g_meta g))
          then Inr (str_bytes (names (g_meta g) ! unat (name_index_v2_2 iv)))
          else Inl undefined_behaviour)"

text \<open>\<open>from_dir_entry_index(self_index, parent_index, g)\<close>.\<close>

definition from_dir_entry_index2 :: "u32 \<Rightarrow> u32 \<Rightarrow> global_metadata \<Rightarrow> error + dir_entry_view" where
  "from_dir_entry_index2 self_index' parent_index' g =
     (case dir_entries (g_meta g) of
        Some de \<Rightarrow>
          if \<not> unat self_index' < length de then Inl (check_failure ''self_index out of range'')
          else if \<not> unat parent_index' < length de then Inl (check_failure ''parent_index out of range'')
          else Inr \<lparr>variant = DirEntryView (de ! unat self_index'), self_index = self_index',
                    parent_index = parent_index'\<rparr>
      | None \<Rightarrow>
          if \<not> unat self_index' < length (inodes (g_meta g))
            then Inl (check_failure ''self_index out of range'')
          else if \<not> unat parent_index' < length (inodes (g_meta g))
            then Inl (check_failure ''self_index out of range'')
          else Inr \<lparr>variant = InodeView (inodes (g_meta g) ! unat self_index'), self_index = self_index',
                    parent_index = parent_index'\<rparr>)"

text \<open>\<open>from_dir_entry_index(self_index, g)\<close>: the parent comes from the directory table.\<close>

definition from_dir_entry_index :: "u32 \<Rightarrow> global_metadata \<Rightarrow> error + dir_entry_view" where
  "from_dir_entry_index self_index' g =
     (case dir_entries (g_meta g) of
        Some de \<Rightarrow>
          if \<not> unat self_index' < length de then Inl (check_failure ''self_index out of range'')
          else (let dev = de ! unat self_index'
                in if \<not> unat (inode_num dev) < length (directories (g_meta g))
                   then Inl (check_failure ''self_index inode out of range'')
                   else (case parent_dir_entry g (inode_num dev) of
                           Inl err \<Rightarrow> Inl err
                         | Inr pe \<Rightarrow> Inr \<lparr>variant = DirEntryView dev, self_index = self_index',
                                          parent_index = pe\<rparr>))
      | None \<Rightarrow>
          if \<not> unat self_index' < length (inodes (g_meta g))
            then Inl (check_failure ''self_index out of range'')
          else (let iv = inodes (g_meta g) ! unat self_index'
                in if \<not> unat (inode_v2_2 iv) < length (directories (g_meta g))
                   then Inl (check_failure ''parent_index out of range'')
                   else (let pe = parent_entry (directories (g_meta g) ! unat (inode_v2_2 iv))
                         in if \<not> unat pe < length (entry_table_v2_2 (g_meta g))
                            then Inl undefined_behaviour
                            else Inr \<lparr>variant = InodeView iv, self_index = self_index',
                                      parent_index = entry_table_v2_2 (g_meta g) ! unat pe\<rparr>)))"

definition view_parent :: "global_metadata \<Rightarrow> dir_entry_view \<Rightarrow> error + dir_entry_view option" where
  "view_parent g view =
     (if is_root view then Inr None
      else map_sum id Some (from_dir_entry_index (parent_index view) g))"

text \<open>
  \<open>append_path_to\<close> calls itself on the parent; nothing in the source bounds the depth of
  the recursion when the parent links are malformed, so it is a partial function.
\<close>

definition append_name :: "global_metadata \<Rightarrow> dir_entry_view \<Rightarrow> string \<Rightarrow> (error + string) option" where
  "append_name g view s =
     (if \<not> is_root view
      then (case view_name g view of Inl err \<Rightarrow> Some (Inl err) | Inr nm \<Rightarrow> Some (Inr (s @ nm)))
      else Some (Inr s))"

partial_function (option) append_path_to ::
  "global_metadata \<Rightarrow> dir_entry_view \<Rightarrow> string \<Rightarrow> (error + string) option" where
  "append_path_to g view s =
     (case view_parent g view of
        Inl err \<Rightarrow> Some (Inl err)
      | Inr None \<Rightarrow> append_name g view s
      | Inr (Some p) \<Rightarrow>
          if \<not> is_root p
          then Option.bind (append_path_to g p s)
                 (\<lambda>r. case r of Inl err \<Rightarrow> Some (Inl err)
                              | Inr s' \<Rightarrow> append_name g view (s' @ ''/''))
          else append_name g view s)"

declare append_path_to.simps [code]

definition view_path :: "global_metadata \<Rightarrow> dir_entry_view \<Rightarrow> (error + string) option" where
  "view_path g view = append_path_to g view []"

section \<open>Directory tables of the builder\<close>

text \<open>
  The numbers the tables are read through: the inode an entry points to, the first entry
  and the parent entry of a directory.
\<close>

definition entry_inode :: "dir_entry list \<Rightarrow> nat \<Rightarrow> nat" where
  "entry_inode dirent e = unat (inode_num (dirent ! e))"

definition dir_first :: "directory list \<Rightarrow> nat \<Rightarrow> nat" where
  "dir_first ds d = unat (first_entry (ds ! d))"

definition dir_parent :: "directory list \<Rightarrow> nat \<Rightarrow> nat" where
  "dir_parent ds c = unat (parent_entry (ds ! c))"

text \<open>
  The directory table and the entries the builder saves for a tree, before packing
  (\<open>save_directories_visitor::pack\<close> in scanner.cpp; \<open>dir::pack\<close> and \<open>entry::pack_entry\<close>
  are defined outside the files verified here).  With \<open>n\<close> directories and \<open>m\<close> entries:
  \<^item> the table has a row per directory and the sentinel; entry 0 is the root's own entry
    and points to inode 0; the root and the sentinel have \<open>parent_entry = 0\<close>;
  \<^item> the children of directory \<open>d\<close> are the entries \<open>first_entry d ..< first_entry (d + 1)\<close>;
    the ranges follow each other from entry 1 to the sentinel's \<open>first_entry = m\<close>;
  \<^item> directories are numbered parent before child (\<open>dir_set_inode_visitor\<close> walks the tree in
    pre-order), so an entry that is a directory (\<open>inode_num < n\<close>) has a larger inode than the
    directory it lies in, and its \<open>parent_entry\<close> is the entry of that directory;
  \<^item> no two entries point to the same directory;
  \<^item> every directory but the root has an entry in the range of a directory numbered before
    it.
\<close>

definition valid_directory_table :: "directory list \<Rightarrow> dir_entry list \<Rightarrow> bool" where
  "valid_directory_table ds dirent =
     (let n = length ds - 1; m = length dirent
      in 2 \<le> length ds \<and> length ds \<le> 2 ^ 32 \<and> 1 \<le> m \<and> m < 2 ^ 32 \<and>
         entry_inode dirent 0 = 0 \<and> dir_parent ds 0 = 0 \<and> dir_parent ds n = 0 \<and>
         dir_first ds 0 = 1 \<and> dir_first ds n = m \<and>
         (\<forall>d\<in>{0..<n}. dir_first ds d \<le> dir_first ds (Suc d)) \<and>
         (\<forall>d\<in>{0..<n}. \<forall>e\<in>{dir_first ds d..<dir_first ds (Suc d)}.
             entry_inode dirent e < n \<longrightarrow>
               d < entry_inode dirent e \<and>
               dir_parent ds (entry_inode dirent e) < m \<and>
               entry_inode dirent (dir_parent ds (entry_inode dirent e)) = d) \<and>
         (\<forall>e\<in>{0..<m}. \<forall>e'\<in>{0..<m}.
             entry_inode dirent e < n \<longrightarrow> entry_inode dirent e = entry_inode dirent e' \<longrightarrow> e = e') \<and>
         (\<forall>c\<in>{1..<n}. \<exists>d\<in>{0..<c}. \<exists>e\<in>{dir_first ds d..<dir_first ds (Suc d)}.
             entry_inode dirent e = c))"

text \<open>The update the inner loop of \<open>unpack_directories\<close> makes for an entry \<open>e\<close>.\<close>

definition set_parent :: "dir_entry list \<Rightarrow> u32 \<Rightarrow> nat \<Rightarrow> directory list \<Rightarrow> directory list" where
  "set_parent dirent parent e ds =
     ds[entry_inode dirent e := (ds ! entry_inode dirent e)\<lparr>parent_entry := parent\<rparr>]"

text \<open>The entries of a range that point to directories.\<close>

definition dir_kids :: "dir_entry list \<Rightarrow> nat \<Rightarrow> nat \<Rightarrow> nat \<Rightarrow> nat list" where
  "dir_kids dirent n b e = filter (\<lambda>e'. entry_inode dirent e' < n) [b..<e]"

text \<open>The directory in which the entry of directory \<open>c\<close> lies.\<close>

definition parent_dir :: "directory list \<Rightarrow> dir_entry list \<Rightarrow> nat \<Rightarrow> nat" where
  "parent_dir ds dirent c = entry_inode dirent (dir_parent ds c)"

text \<open>
  What holds of the queue and the \<open>directories\<close> vector at the head of the loop of
  \<open>unpack_directories\<close>, relative to the table \<open>ds\<close> that was packed: the first entries are
  decoded; every queued entry is the entry of a directory; the parent entry of a directory
  other than the root is either recovered already, or the entry of one of its proper
  ancestors is still queued.
\<close>

definition unpack_inv :: "directory list \<Rightarrow> dir_entry list \<Rightarrow> u32 list \<Rightarrow> directory list \<Rightarrow> bool" where
  "unpack_inv ds dirent queue dirs =
     (let n = length ds - 1; m = length dirent
      in length dirs = length ds \<and>
         (\<forall>j<length ds. first_entry (dirs ! j) = first_entry (ds ! j)) \<and>
         (\<forall>q\<in>set queue. unat q < m \<and> entry_inode dirent (unat q) < n) \<and>
         parent_entry (dirs ! 0) = parent_entry (ds ! 0) \<and>
         parent_entry (dirs ! n) = parent_entry (ds ! n) \<and>
         (\<forall>c. 0 < c \<and> c < n \<longrightarrow>
            parent_entry (dirs ! c) = parent_entry (ds ! c) \<or>
            (\<exists>q\<in>set queue. \<exists>k.
               (parent_dir ds dirent ^^ Suc k) c = entry_inode dirent (unat q) \<and>
               (\<forall>j\<le>k. 0 < (parent_dir ds dirent ^^ j) c))))"

text \<open>The measure that decreases with every round of the loop.\<close>

definition queue_weight :: "dir_entry list \<Rightarrow> nat \<Rightarrow> u32 list \<Rightarrow> nat" where
  "queue_weight dirent n queue =
     sum_list (map (\<lambda>q. (length dirent + 1) ^ (n - entry_inode dirent (unat q))) queue)"

section \<open>Paths as sequences of names\<close>

text \<open>The names joined by single separators: nothing before the first, nothing after the last.\<close>

fun join_path :: "string list \<Rightarrow> string" where
  "join_path [] = []"
| "join_path [nm] = nm"
| "join_path (nm # nms) = nm @ ''/'' @ join_path nms"

text \<open>
  The tree as the tables lay it out.  The entry \<open>e\<close> lies in the directory whose entry is
  \<open>p\<close> when \<open>p\<close> points to a directory \<open>d\<close> and \<open>e\<close> is in the range of \<open>d\<close>,
  \<open>first_entry d \<le> e < first_entry (d + 1)\<close> (\<open>directory_view::entry_range\<close>).  The name of
  an entry is the item of the names table at its \<open>name_index\<close>.
\<close>

definition lies_in :: "directory list \<Rightarrow> dir_entry list \<Rightarrow> nat \<Rightarrow> nat \<Rightarrow> bool" where
  "lies_in ds dirent e p =
     (entry_inode dirent p < length ds - 1 \<and>
      dir_first ds (entry_inode dirent p) \<le> e \<and> e < dir_first ds (Suc (entry_inode dirent p)))"

definition entry_name :: "dir_entry list \<Rightarrow> string list \<Rightarrow> nat \<Rightarrow> string" where
  "entry_name dirent nms e = nms ! unat (name_index (dirent ! e))"

text \<open>
  \<open>path_names ds dirent nms e p ns\<close>: going down the tree from the root (entry 0), from a
  directory to an entry in its range, one arrives at the entry \<open>e\<close>, which lies in the
  directory with the entry \<open>p\<close>; \<open>ns\<close> are the names of the entries met on the way, the root
  excluded and \<open>e\<close> included.  Only the ranges of the directories are read, not their
  \<open>parent_entry\<close>.
\<close>

inductive path_names ::
  "directory list \<Rightarrow> dir_entry list \<Rightarrow> string list \<Rightarrow> nat \<Rightarrow> nat \<Rightarrow> string list \<Rightarrow> bool"
  for ds dirent nms where
  root: "path_names ds dirent nms 0 0 []"
| child: "path_names ds dirent nms p pp ns \<Longrightarrow> lies_in ds dirent e p \<Longrightarrow>
          path_names ds dirent nms e p (ns @ [entry_name dirent nms e])"

text \<open>The directory table a \<open>global_metadata\<close> reads through (\<open>directories_\<close> when it is set).\<close>

definition g_directories :: "global_metadata \<Rightarrow> directory list" where
  "g_directories g =
     (if g_directories_storage g \<noteq> [] then g_directories_storage g else directories (g_meta g))"
section \<open>Example images\<close>

text \<open>
  A small image as the builder lays it out, with every kind of inode.  The tree is
  \<^verbatim>\<open>
  /            directory, inode 0
  /a           directory, inode 1
  /a/b         directory, inode 2
  /a/f         regular file, inode 5 (two chunks)
  /dev         character device, inode 8
  /l -> x      symbolic link, inode 3
  /pipe        fifo, inode 9
  /x           regular file, inode 4 (one chunk)
  /y, /z       two files with the same content, inodes 6 and 7 (one shared chunk)
  \<close>
  \<open>dir_entries[0]\<close> is the entry of the root; the children of a directory follow in the
  order of the directories' inode numbers, sorted by name.
\<close>

definition example_modes :: "u16 list" where
  "example_modes = [0x41ED, 0xA1FF, 0x81A4, 0x21B6, 0x11A4]"

definition example_inode :: "u32 \<Rightarrow> inode_data" where
  "example_inode m = \<lparr>mode_index = m, owner_index = 0, group_index = 0,
                      name_index_v2_2 = 0, inode_v2_2 = 0\<rparr>"

definition example_dir_entries :: "dir_entry list" where
  "example_dir_entries =
     [\<lparr>name_index = 0, inode_num = 0\<rparr>,
      \<lparr>name_index = 0, inode_num = 1\<rparr>, \<lparr>name_index = 2, inode_num = 8\<rparr>,
      \<lparr>name_index = 4, inode_num = 3\<rparr>, \<lparr>name_index = 5, inode_num = 9\<rparr>,
      \<lparr>name_index = 6, inode_num = 4\<rparr>, \<lparr>name_index = 7, inode_num = 6\<rparr>,
      \<lparr>name_index = 8, inode_num = 7\<rparr>,
      \<lparr>name_index = 1, inode_num = 2\<rparr>, \<lparr>name_index = 3, inode_num = 5\<rparr>]"

definition example_directories :: "directory list" where
  "example_directories =
     [\<lparr>parent_entry = 0, first_entry = 1\<rparr>, \<lparr>parent_entry = 0, first_entry = 8\<rparr>,
      \<lparr>parent_entry = 1, first_entry = 10\<rparr>, \<lparr>parent_entry = 0, first_entry = 10\<rparr>]"

definition example_names :: "string list" where
  "example_names = [''a'', ''b'', ''dev'', ''f'', ''l'', ''pipe'', ''x'', ''y'', ''z'']"

definition example_image :: Meta where
  "example_image =
     \<lparr>chunks = [\<lparr>block = 0, offset = 0, size_c = 100\<rparr>, \<lparr>block = 0, offset = 100, size_c = 50\<rparr>,
                \<lparr>block = 0, offset = 150, size_c = 50\<rparr>, \<lparr>block = 0, offset = 200, size_c = 100\<rparr>],
      directories = example_directories,
      inodes = map example_inode [0, 0, 0, 1, 2, 2, 2, 2, 3, 4],
      chunk_table = [0, 1, 3, 4],
      entry_table_v2_2 = [],
      symlink_table = [0],
      uids = [1000],
      gids = [100],
      modes = example_modes,
      names = [\<lparr>str_begin = 1000, str_bytes = ''a''\<rparr>, \<lparr>str_begin = 1001, str_bytes = ''b''\<rparr>,
               \<lparr>str_begin = 1002, str_bytes = ''dev''\<rparr>, \<lparr>str_begin = 1005, str_bytes = ''f''\<rparr>,
               \<lparr>str_begin = 1006, str_bytes = ''l''\<rparr>, \<lparr>str_begin = 1007, str_bytes = ''pipe''\<rparr>,
               \<lparr>str_begin = 1011, str_bytes = ''x''\<rparr>, \<lparr>str_begin = 1012, str_bytes = ''y''\<rparr>,
               \<lparr>str_begin = 1013, str_bytes = ''z''\<rparr>],
      symlinks = [\<lparr>str_begin = 2000, str_bytes = ''x''\<rparr>],
      block_size = 1024,
      devices = Some [259],
      options = Some \<lparr>packed_chunk_table = False, packed_directories = False,
                      packed_shared_files_table = False\<rparr>,
      dir_entries = Some example_dir_entries,
      shared_files_table = Some [0, 0],
      compact_names = None,
      compact_symlinks = None\<rparr>"

text \<open>The same image with the three table packings applied.\<close>

definition example_image_packed :: Meta where
  "example_image_packed =
     example_image
       \<lparr>directories := pack_directories True example_directories,
        chunk_table := pack_chunk_table True [0, 1, 3, 4],
        options := Some \<lparr>packed_chunk_table = True, packed_directories = True,
                         packed_shared_files_table = True\<rparr>,
        shared_files_table := Some [0]\<rparr>"

text \<open>
  The image of an empty file system: one directory, whose entry has \<open>name_index = 0\<close>
  while the names table is empty.
\<close>

definition root_only_image :: Meta where
  "root_only_image =
     \<lparr>chunks = [],
      directories = [\<lparr>parent_entry = 0, first_entry = 1\<rparr>, \<lparr>parent_entry = 0, first_entry = 1\<rparr>],
      inodes = [example_inode 0],
      chunk_table = [0],
      entry_table_v2_2 = [],
      symlink_table = [],
      uids = [1000],
      gids = [100],
      modes = [0x41ED],
      names = [],
      symlinks = [],
      block_size = 1024,
      devices = Some [],
      options = Some \<lparr>packed_chunk_table = False, packed_directories = False,
                      packed_shared_files_table = False\<rparr>,
      dir_entries = Some [\<lparr>name_index = 0, inode_num = 0\<rparr>],
      shared_files_table = Some [],
      compact_names = None,
      compact_symlinks = None\<rparr>"

text \<open>
  A root directory with one file whose name is 600 bytes long, the names stored as a
  compact table with an unpacked index (cumulative offsets).
\<close>

definition long_name_image :: Meta where
  "long_name_image =
     \<lparr>chunks = [],
      directories = [\<lparr>parent_entry = 0, first_entry = 1\<rparr>, \<lparr>parent_entry = 0, first_entry = 2\<rparr>],
      inodes = [example_inode 0, example_inode 1],
      chunk_table = [0, 0],
      entry_table_v2_2 = [],
      symlink_table = [],
      uids = [1000],
      gids = [100],
      modes = [0x41ED, 0x81A4],
      names = [],
      symlinks = [],
      block_size = 1024,
      devices = Some [],
      options = Some \<lparr>packed_chunk_table = False, packed_directories = False,
                      packed_shared_files_table = False\<rparr>,
      dir_entries = Some [\<lparr>name_index = 0, inode_num = 0\<rparr>, \<lparr>name_index = 0, inode_num = 1\<rparr>],
      shared_files_table = Some [],
      compact_names = Some \<lparr>buffer = replicate 600 CHR ''x'', index = [0, 600], packed_index = False\<rparr>,
      compact_symlinks = None\<rparr>"

text \<open>The unique files of \<open>example_image\<close> as the inode manager hands them over.\<close>

definition example_inodes :: "inode list" where
  "example_inodes =
     [\<lparr>num = 0, inode_chunks = [\<lparr>block = 0, offset = 0, size_c = 100\<rparr>]\<rparr>,
      \<lparr>num = 1, inode_chunks = [\<lparr>block = 0, offset = 100, size_c = 50\<rparr>,
                                 \<lparr>block = 0, offset = 150, size_c = 50\<rparr>]\<rparr>,
      \<lparr>num = 2, inode_chunks = [\<lparr>block = 0, offset = 200, size_c = 100\<rparr>]\<rparr>]"

definition one_chunk :: chunk where
  "one_chunk = \<lparr>block = 0, offset = 0, size_c = 1\<rparr>"

text \<open>
  The reader's view of \<open>example_image_packed\<close>: the directories as \<open>unpack_directories\<close>
  rematerialises them and the decoded names.
\<close>

definition example_g :: global_metadata where
  "example_g = \<lparr>g_meta = example_image_packed, g_directories_storage = example_directories,
                 g_names = example_names\<rparr>"

text \<open>
  A scan in which the access check of \<open>/somedir/ipsum.py\<close> fails.  The file scanner keeps
  the list of the files it was given.
\<close>

definition unreadable_env :: "entry list scan_env" where
  "unreadable_env =
     \<lparr>created = Inr (Some \<lparr>path = ''/somedir/ipsum.py'', etype = E_FILE, st_size = 10000\<rparr>),
      scr = None,
      debug_filter_function = None,
      with_devices = True,
      with_specials = True,
      access = (\<lambda>p. if p = ''/somedir/ipsum.py'' then - 1 else 0),
      entry_scan = (\<lambda>e p. Inr (e, p)),
      fs_scan = (\<lambda>e f p. Inr (f @ [e], p))\<rparr>"

definition empty_scan_state :: "entry list scan_state" where
  "empty_scan_state =
     \<lparr>prog = \<lparr>errors = 0, dirs_found = 2, files_found = 0, symlinks_found = 0,
               symlinks_scanned = 0, specials_found = 0\<rparr>,
      parent_entries = [], fs = [], error_log = [], debug_out = []\<rparr>"

text \<open>
  An image in the v2.2 layout (no \<open>dir_entries\<close>): the root, a directory \<open>a\<close> and a file
  \<open>f\<close>.  The rows of \<open>inodes\<close> are the entries, \<open>entry_table_v2_2\<close> maps an inode number to
  its row, and \<open>parent_entry\<close> is the inode number of the parent.
\<close>

definition legacy_image :: Meta where
  "legacy_image =
     \<lparr>chunks = [],
      directories = [\<lparr>parent_entry = 0, first_entry = 1\<rparr>, \<lparr>parent_entry = 0, first_entry = 2\<rparr>,
                     \<lparr>parent_entry = 0, first_entry = 3\<rparr>],
      inodes = [\<lparr>mode_index = 0, owner_index = 0, group_index = 0, name_index_v2_2 = 0, inode_v2_2 = 0\<rparr>,
                \<lparr>mode_index = 0, owner_index = 0, group_index = 0, name_index_v2_2 = 0, inode_v2_2 = 1\<rparr>,
                \<lparr>mode_index = 1, owner_index = 0, group_index = 0, name_index_v2_2 = 1, inode_v2_2 = 2\<rparr>],
      chunk_table = [0, 0],
      entry_table_v2_2 = [0, 1, 2],
      symlink_table = [],
      uids = [1000],
      gids = [100],
      modes = [0x41ED, 0x81A4],
      names = [\<lparr>str_begin = 1000, str_bytes = ''a''\<rparr>, \<lparr>str_begin = 1001, str_bytes = ''f''\<rparr>],
      symlinks = [],
      block_size = 1024,
      devices = None,
      options = None,
      dir_entries = None,
      shared_files_table = None,
      compact_names = None,
      compact_symlinks = None\<rparr>"

definition legacy_g :: global_metadata where
  "legacy_g = \<lparr>g_meta = legacy_image, g_directories_storage = [], g_names = [''a'', ''f'']\<rparr>"


text \<open>
  An image with a chain of directories: the tree is
  \<^verbatim>\<open>
  /            directory, inode 0, entry 0
  /a           directory, inode 1, entry 1
  /a/b         directory, inode 2, entry 2
  /a/b/c       regular file, inode 3 (empty), entry 3
  \<close>
\<close>

definition deep_directories :: "directory list" where
  "deep_directories =
     [\<lparr>parent_entry = 0, first_entry = 1\<rparr>, \<lparr>parent_entry = 0, first_entry = 2\<rparr>,
      \<lparr>parent_entry = 1, first_entry = 3\<rparr>, \<lparr>parent_entry = 0, first_entry = 4\<rparr>]"

definition deep_dir_entries :: "dir_entry list" where
  "deep_dir_entries =
     [\<lparr>name_index = 0, inode_num = 0\<rparr>, \<lparr>name_index = 0, inode_num = 1\<rparr>,
      \<lparr>name_index = 1, inode_num = 2\<rparr>, \<lparr>name_index = 2, inode_num = 3\<rparr>]"

definition deep_image :: Meta where
  "deep_image =
     \<lparr>chunks = [],
      directories = deep_directories,
      inodes = map example_inode [0, 0, 0, 1],
      chunk_table = [0, 0],
      entry_table_v2_2 = [],
      symlink_table = [],
      uids = [1000],
      gids = [100],
      modes = [0x41ED, 0x81A4],
      names = [\<lparr>str_begin = 1000, str_bytes = ''a''\<rparr>, \<lparr>str_begin = 1001, str_bytes = ''b''\<rparr>,
               \<lparr>str_begin = 1002, str_bytes = ''c''\<rparr>],
      symlinks = [],
      block_size = 1024,
      devices = Some [],
      options = Some \<lparr>packed_chunk_table = False, packed_directories = False,
                      packed_shared_files_table = False\<rparr>,
      dir_entries = Some deep_dir_entries,
      shared_files_table = Some [],
      compact_names = None,
      compact_symlinks = None\<rparr>"

text \<open>The reader's view of \<open>deep_image\<close>, whose directories are not packed.\<close>

definition deep_g :: global_metadata where
  "deep_g = \<lparr>g_meta = deep_image, g_directories_storage = [], g_names = [''a'', ''b'', ''c'']\<rparr>"
section \<open>The reader's consistency checks\<close>

lemma and_then_Inr: "and_then a b = Inr r \<longleftrightarrow> a = Inr () \<and> b = Inr r"
  by (cases a) (simp_all add: and_then_def)

lemma for_each_check_Inr: "for_each_check f xs = Inr () \<longleftrightarrow> (\<forall>x\<in>set xs. f x = Inr ())"
  by (induction xs) (auto split: sum.splits)

lemma check_metadata_accepts:
  assumes "check_metadata meta True = Inr meta'"
  shows "check_empty_tables meta = Inr ()" and "check_index_range meta = Inr ()"
    and "check_packed_tables meta = Inr ()" and "check_string_tables meta = Inr ()"
    and "check_chunks meta = Inr ()"
    and "\<exists>offsets. check_partitioning meta = Inr offsets \<and> check_counts meta offsets = Inr ()"
  using assms
  by (auto simp: check_metadata_def and_then_Inr split: sum.splits)

subsection \<open>The example images pass the checks\<close>

lemmas check_defs =
  check_metadata_def check_empty_tables_def check_index_range_def check_inode_indices_def
  check_dir_entry_indices_def dir_entry_num_names_def check_packed_tables_def
  check_directories_table_def check_chunk_table_def accumulate_size_t_def
  check_string_tables_def check_compact_strings_def check_plain_strings_def
  expected_num_names_def expected_num_symlink_strings_def check_chunks_def
  check_partitioning_def inode_ranks_def is_partitioned_def partition_point_def
  check_counts_def file_counts_def num_dev_def check_inode_v2_2_def num_reg_shared_packed_def
  and_then_def size_t_sub_def size_t_add_def uint16_max_def uint32_max_def
  max_name_len_def max_symlink_len_def mode_rank_def
  S_IFMT_def S_IFDIR_def S_IFLNK_def S_IFREG_def S_IFBLK_def S_IFCHR_def
  int_to_size_t_def accumulate_int_def

lemma upt_0_6: "[0..<6] = [0, 1, 2, 3, 4, 5]"
  by code_simp

lemma root_only_image_accepted: "check_metadata root_only_image True = Inr root_only_image"
  by (simp add: check_defs upt_0_6 root_only_image_def example_inode_def)

lemma long_name_image_accepted: "check_metadata long_name_image True = Inr long_name_image"
  by (simp add: check_defs upt_0_6 long_name_image_def example_inode_def)

lemma example_image_accepted: "check_metadata example_image True = Inr example_image"
  by (simp add: check_defs upt_0_6 example_image_def example_inode_def example_modes_def
      example_directories_def example_dir_entries_def)

lemma example_image_packed_accepted: "check_metadata example_image_packed True = Inr example_image_packed"
  by (simp add: check_defs upt_0_6 example_image_packed_def example_image_def example_inode_def example_modes_def
      example_directories_def example_dir_entries_def pack_directories_def pack_chunk_table_def
      adjacent_difference_def)

subsection \<open>Partitioning\<close>
















subsection \<open>Index bounds\<close>

lemma check_index_range_inodes:
  assumes "check_index_range meta = Inr ()" and "ino \<in> set (inodes meta)"
  shows "unat (mode_index ino) < length (modes meta)"
    and "owner_index ino = 0 \<or> unat (owner_index ino) < length (uids meta)"
    and "group_index ino = 0 \<or> unat (group_index ino) < length (gids meta)"
proof -
  have "check_inode_indices (length (modes meta)) (length (uids meta)) (length (gids meta))
          (length (names meta)) (dir_entries meta = None) ino = Inr ()"
    using assms
    by (auto simp: check_index_range_def Let_def and_then_Inr for_each_check_Inr split: if_splits)
  then show "unat (mode_index ino) < length (modes meta)"
    and "owner_index ino = 0 \<or> unat (owner_index ino) < length (uids meta)"
    and "group_index ino = 0 \<or> unat (group_index ino) < length (gids meta)"
    by (auto simp: check_inode_indices_def unat_gt_0 split: if_splits)
qed

lemma check_index_range_dir_entries:
  assumes "check_index_range meta = Inr ()" and "dir_entries meta = Some dep"
  shows "\<exists>num_names. dir_entry_num_names meta = Inr num_names \<and>
           (\<forall>de\<in>set dep. (name_index de = 0 \<or> unat (name_index de) < num_names) \<and>
                          unat (inode_num de) < length (inodes meta))"
proof -
  obtain num_names where n: "dir_entry_num_names meta = Inr num_names"
    and a: "\<forall>de\<in>set dep. check_dir_entry_indices num_names (length (inodes meta)) de = Inr ()"
    using assms
    by (auto simp: check_index_range_def Let_def and_then_Inr for_each_check_Inr
             split: if_splits sum.splits)
  have "\<forall>de\<in>set dep. (name_index de = 0 \<or> unat (name_index de) < num_names) \<and>
                          unat (inode_num de) < length (inodes meta)"
    using a by (auto simp: check_dir_entry_indices_def unat_gt_0 split: if_splits)
  then show ?thesis using n by blast
qed

text \<open>
  Claim C6, as the code has it.  The claim asks for every index to be strictly below the
  size of its table.  The check does so for \<open>mode_index\<close> and \<open>inode_num\<close>; for
  \<open>owner_index\<close>, \<open>group_index\<close> and \<open>name_index\<close> it lets the value \<open>0\<close> pass whatever the
  size of the table (the guard \<open>i > 0\<close>), and \<open>name_index\<close> is measured against the item
  count of the compact names table when there is one (\<open>dir_entry_num_names\<close>).
\<close>

theorem check_index_range_bounds:
  assumes "check_metadata meta True = Inr meta'"
  shows "(\<forall>ino\<in>set (inodes meta).
            unat (mode_index ino) < length (modes meta) \<and>
            (owner_index ino = 0 \<or> unat (owner_index ino) < length (uids meta)) \<and>
            (group_index ino = 0 \<or> unat (group_index ino) < length (gids meta))) \<and>
         (\<forall>dep. dir_entries meta = Some dep \<longrightarrow>
            (\<exists>num_names. dir_entry_num_names meta = Inr num_names \<and>
               (\<forall>de\<in>set dep. (name_index de = 0 \<or> unat (name_index de) < num_names) \<and>
                              unat (inode_num de) < length (inodes meta))))"
proof -
  have r: "check_index_range meta = Inr ()" using assms by (rule check_metadata_accepts)
  show ?thesis
    using check_index_range_inodes [OF r] check_index_range_dir_entries [OF r] by blast
qed

theorem check_index_range_bounds_witness:
  "check_metadata example_image True = Inr example_image \<and>
   unat (mode_index (example_inode 4)) < length (modes example_image) \<and>
   unat (inode_num \<lparr>name_index = 3, inode_num = 5\<rparr>) < length (inodes example_image)"
proof -
  have a: "example_inode 4 \<in> set (inodes example_image)"
    by (simp add: example_image_def)
  have b: "dir_entries example_image = Some example_dir_entries"
    by (simp add: example_image_def)
  have c: "\<lparr>name_index = 3, inode_num = 5\<rparr> \<in> set example_dir_entries"
    by (simp add: example_dir_entries_def)
  have "unat (mode_index (example_inode 4)) < length (modes example_image)"
    using check_index_range_bounds [OF example_image_accepted] a by blast
  moreover have "unat (inode_num \<lparr>name_index = 3, inode_num = 5\<rparr>) < length (inodes example_image)"
    using check_index_range_bounds [OF example_image_accepted] b c by blast
  ultimately show ?thesis using example_image_accepted by simp
qed

text \<open>
  The image of an empty file system is accepted although the \<open>name_index\<close> of its only
  entry, \<open>0\<close>, is not below the size of the (empty) names table.
\<close>

theorem strict_name_index_counterexample:
  "check_metadata root_only_image True = Inr root_only_image \<and>
   dir_entries root_only_image = Some [\<lparr>name_index = 0, inode_num = 0\<rparr>] \<and>
   compact_names root_only_image = None \<and>
   \<not> unat (name_index \<lparr>name_index = 0, inode_num = 0\<rparr>) < length (names root_only_image)"
  by (intro conjI root_only_image_accepted) (simp_all add: root_only_image_def)

subsection \<open>String tables\<close>

text \<open>
  Claim C7 at a failing input.  The names of \<open>long_name_image\<close> are a compact table with an
  unpacked index \<open>[0, 600]\<close>: one item of 600 bytes, more than \<open>max_name_len\<close>.  The check
  accepts the image: \<open>longest_item_len\<close> is computed for a packed index only.
\<close>

theorem long_name_accepted:
  "check_metadata long_name_image True = Inr long_name_image \<and>
   compact_names long_name_image
     = Some \<lparr>buffer = replicate 600 CHR ''x'', index = [0, 600], packed_index = False\<rparr> \<and>
   unat (600 - 0 :: u32) > max_name_len"
  by (intro conjI long_name_image_accepted) (simp_all add: long_name_image_def max_name_len_def)

text \<open>
  For a packed index the lengths are summed by \<open>std::accumulate\<close> with the initial value
  \<open>0\<close>, an \<open>int\<close>: the sum is taken modulo \<open>2 ^ 32\<close>.  A table of \<open>2 ^ 20\<close> items of
  length 4096 with an empty buffer passes the comparison of the buffer size with the sum.
\<close>

lemma accumulate_int_replicate_aux:
  "fold (\<lambda>x a. a + x) (replicate n x) (a::u32) = a + of_nat n * x"
  by (induction n arbitrary: a) (simp_all add: algebra_simps del: fold_replicate)

lemma accumulate_int_replicate: "accumulate_int (replicate n x) = of_nat n * x"
  unfolding accumulate_int_def by (simp only: accumulate_int_replicate_aux add_0)

lemma packed_lengths_sum_wraps:
  "check_compact_strings \<lparr>buffer = [], index = replicate (2 ^ 20) 4096, packed_index = True\<rparr>
     (2 ^ 20) max_symlink_len ''symlink strings'' = Inr () \<and>
   sum_list (map unat (replicate (2 ^ 20) (4096 :: u32))) = 2 ^ 32"
proof -
  have ne: "replicate (2 ^ 20) (4096 :: u32) \<noteq> []" by (simp add: replicate_empty)
  have s: "set (replicate (2 ^ 20) (4096 :: u32)) = {4096}" by simp
  have a: "accumulate_int (replicate (2 ^ 20) 4096) = 0"
    unfolding accumulate_int_replicate by simp
  have "check_compact_strings \<lparr>buffer = [], index = replicate (2 ^ 20) 4096, packed_index = True\<rparr>
     (2 ^ 20) max_symlink_len ''symlink strings'' = Inr ()"
    unfolding check_compact_strings_def Let_def
    using ne a s by (simp add: int_to_size_t_def max_symlink_len_def)
  moreover have "sum_list (map unat (replicate (2 ^ 20) (4096 :: u32))) = 2 ^ 32"
    by (simp add: sum_list_replicate)
  ultimately show ?thesis by simp
qed

section \<open>Shared-files run-length packing\<close>

lemma size_t_add_mod: "size_t_add (a mod 2 ^ 64) b = (a + b) mod 2 ^ 64"
  by (simp add: size_t_add_def mod_add_left_eq)

lemma accumulate_size_t_eq:
  "accumulate_size_t xs (a mod 2 ^ 64) = (a + sum_list (map unat xs)) mod 2 ^ 64"
proof (induction xs arbitrary: a)
  case Nil
  then show ?case by (simp add: accumulate_size_t_def)
next
  case (Cons x xs)
  have "accumulate_size_t (x # xs) (a mod 2 ^ 64)
        = accumulate_size_t xs (size_t_add (a mod 2 ^ 64) (unat x))"
    by (simp add: accumulate_size_t_def)
  also have "\<dots> = accumulate_size_t xs ((a + unat x) mod 2 ^ 64)"
    by (simp only: size_t_add_mod)
  also have "\<dots> = (a + unat x + sum_list (map unat xs)) mod 2 ^ 64"
    by (rule Cons.IH)
  also have "a + unat x + sum_list (map unat xs) = a + sum_list (map unat (x # xs))"
    by simp
  finally show ?case .
qed

lemma num_reg_shared_packed_eq:
  "num_reg_shared_packed sfp = (sum_list (map unat sfp) + 2 * length sfp) mod 2 ^ 64"
  unfolding num_reg_shared_packed_def accumulate_size_t_eq by (simp only: add.commute)

lemma unpack_shared_from_append:
  "unpack_shared_from idx (cs @ [c]) =
     unpack_shared_from idx cs @ replicate (unat c + 2) (idx + of_nat (length cs))"
  by (induction cs arbitrary: idx) (simp_all add: add.assoc)

lemma unat_suc_u32: "unat (c::u32) + 1 < 2 ^ 32 \<Longrightarrow> unat (c + 1) = unat c + 1"
  by (simp add: unat_word_ariths)

lemma count_list_zero: "x \<notin> set xs \<Longrightarrow> count_list xs x = 0"
  by (induction xs) auto

lemma pack_shared_loop_ok:
  assumes "sorted xs" and "\<forall>x\<in>set xs. idx \<le> x"
    and "\<forall>y\<in>set xs. \<forall>x. idx < x \<and> x \<le> y \<longrightarrow> 2 \<le> count_list xs x"
    and "unat count + length xs < 2 ^ 32"
    and "2 \<le> unat count + count_list xs idx"
  shows "\<exists>cnt last_idx new. pack_shared_loop xs count idx acc = Inr (cnt, last_idx, acc @ new)
           \<and> 2 \<le> unat cnt
           \<and> replicate (unat count) idx @ xs = unpack_shared_from idx new @ replicate (unat cnt) last_idx
           \<and> last_idx = last (idx # xs)
           \<and> unat last_idx = unat idx + length new"
  using assms
proof (induction xs arbitrary: count idx acc)
  case Nil
  then show ?case by simp
next
  case (Cons i xs)
  show ?case
  proof (cases "i = idx")
    case True
    have c1: "unat (count + 1) = unat count + 1"
      using Cons.prems(4) by (intro unat_suc_u32) simp
    have h3: "\<forall>y\<in>set xs. \<forall>x. idx < x \<and> x \<le> y \<longrightarrow> 2 \<le> count_list xs x"
    proof (intro ballI allI impI)
      fix y x assume y: "y \<in> set xs" and x: "idx < x \<and> x \<le> y"
      then have "2 \<le> count_list (i # xs) x" using Cons.prems(3) by simp
      moreover have "x \<noteq> i" using x True by auto
      ultimately show "2 \<le> count_list xs x" by simp
    qed
    have "\<exists>cnt last_idx new. pack_shared_loop xs (count + 1) idx acc = Inr (cnt, last_idx, acc @ new)
           \<and> 2 \<le> unat cnt
           \<and> replicate (unat (count + 1)) idx @ xs = unpack_shared_from idx new @ replicate (unat cnt) last_idx
           \<and> last_idx = last (idx # xs)
           \<and> unat last_idx = unat idx + length new"
      using Cons.prems True c1 h3 by (intro Cons.IH) auto
    then show ?thesis using True c1 by (auto simp: replicate_app_Cons_same)
  next
    case False
    have ge: "\<forall>x\<in>set xs. i \<le> x" using Cons.prems(1) by simp
    have lt: "idx < i" using Cons.prems(2) False by (simp add: order.strict_iff_order)
    have "unat idx < unat i" using lt by (simp add: word_less_nat_alt)
    moreover have "unat i < 2 ^ 32" using unsigned_less [of i, where ?'a = nat] by simp
    ultimately have nowrap: "unat (idx + 1) = unat idx + 1"
      by (intro unat_suc_u32) simp
    have lt1: "idx < idx + 1" using nowrap by (simp add: word_less_nat_alt)
    have le1: "idx + 1 \<le> i" using lt by (rule inc_le)
    have ci: "2 \<le> count_list (i # xs) (idx + 1)"
      using Cons.prems(3) lt1 le1 by simp
    then have "idx + 1 \<in> set (i # xs)"
      by (metis count_list_zero not_numeral_le_zero)
    then have "i \<le> idx + 1" using ge by auto
    then have ieq: "i = idx + 1" using le1 by simp
    have "idx \<notin> set (i # xs)" using ge lt by auto
    then have "count_list (i # xs) idx = 0" by (rule count_list_zero)
    then have c2: "2 \<le> unat count" using Cons.prems(5) by simp
    then have c2w: "2 \<le> count" by (simp add: word_le_nat_alt)
    have "unat (count - 2) = unat count - 2"
      using c2w by (simp add: unat_sub)
    then have cm: "unat (count - 2) + 2 = unat count"
      using c2 by simp
    have h3: "\<forall>y\<in>set xs. \<forall>x. idx + 1 < x \<and> x \<le> y \<longrightarrow> 2 \<le> count_list xs x"
    proof (intro ballI allI impI)
      fix y x assume y: "y \<in> set xs" and x: "idx + 1 < x \<and> x \<le> y"
      from lt1 x have "idx < x" by (metis less_trans)
      then have "2 \<le> count_list (i # xs) x" using Cons.prems(3) y x by simp
      moreover have "x \<noteq> i" using x ieq by auto
      ultimately show "2 \<le> count_list xs x" by simp
    qed
    have h5: "2 \<le> unat (1::u32) + count_list xs (idx + 1)"
      using ci ieq by simp
    have "\<exists>cnt last_idx new. pack_shared_loop xs 1 (idx + 1) (acc @ [count - 2])
             = Inr (cnt, last_idx, (acc @ [count - 2]) @ new)
           \<and> 2 \<le> unat cnt
           \<and> replicate (unat (1::u32)) (idx + 1) @ xs
               = unpack_shared_from (idx + 1) new @ replicate (unat cnt) last_idx
           \<and> last_idx = last ((idx + 1) # xs)
           \<and> unat last_idx = unat (idx + 1) + length new"
      using Cons.prems(1,4) ge ieq h3 h5 by (intro Cons.IH) auto
    then obtain cnt last_idx new where
      r: "pack_shared_loop xs 1 (idx + 1) (acc @ [count - 2]) = Inr (cnt, last_idx, (acc @ [count - 2]) @ new)"
      and r2: "2 \<le> unat cnt"
      and r3: "replicate (unat (1::u32)) (idx + 1) @ xs
               = unpack_shared_from (idx + 1) new @ replicate (unat cnt) last_idx"
      and r4: "last_idx = last ((idx + 1) # xs)"
      and r5: "unat last_idx = unat (idx + 1) + length new"
      by blast
    have "pack_shared_loop (i # xs) count idx acc = Inr (cnt, last_idx, acc @ ((count - 2) # new))"
      using r False ieq c2w by simp
    moreover have "replicate (unat count) idx @ i # xs
        = unpack_shared_from idx ((count - 2) # new) @ replicate (unat cnt) last_idx"
      using r3 cm ieq by simp
    moreover have "last_idx = last (idx # i # xs)" using r4 ieq by simp
    moreover have "unat last_idx = unat idx + length ((count - 2) # new)"
      using r5 nowrap by simp
    ultimately show ?thesis using r2 by blast
  qed
qed


lemma length_unpack_shared_from:
  "length (unpack_shared_from idx cs) = sum_list (map unat cs) + 2 * length cs"
  by (induction cs arbitrary: idx) simp_all

lemma count_list_replicate:
  "count_list (replicate n x) y = (if x = y then n else 0)"
  by (induction n) auto

lemma u32_add_of_nat_neq:
  fixes i :: u32
  assumes "0 < m" and "m < 2 ^ 32"
  shows "i + of_nat m \<noteq> i"
proof
  assume "i + of_nat m = i"
  then have "(of_nat m :: u32) = 0" by simp
  then have "unat (of_nat m :: u32) = 0" by simp
  then show False using assms by (simp add: unat_of_nat)
qed

lemma set_unpack_shared_from:
  "set (unpack_shared_from idx cs) = (\<lambda>m. idx + of_nat m) ` {..<length cs}"
proof (induction cs arbitrary: idx)
  case Nil
  then show ?case by simp
next
  case (Cons c cs)
  have "(\<lambda>m. idx + 1 + (of_nat m :: u32)) ` {..<length cs}
        = (\<lambda>m. idx + of_nat m) ` Suc ` {..<length cs}"
    by (simp add: image_image ac_simps)
  moreover have "{..<Suc (length cs)} = insert 0 (Suc ` {..<length cs})"
    by (auto simp: lessThan_Suc_eq_insert_0)
  ultimately show ?case using Cons.IH [of "idx + 1"] by (auto simp: set_replicate_conv_if)
qed

lemma count_list_unpack_shared_from:
  assumes "length cs < 2 ^ 32" and "k < length cs"
  shows "count_list (unpack_shared_from idx cs) (idx + of_nat k) = unat (cs ! k) + 2"
  using assms
proof (induction cs arbitrary: idx k)
  case Nil
  then show ?case by simp
next
  case (Cons c cs)
  show ?case
  proof (cases k)
    case 0
    have "idx \<notin> set (unpack_shared_from (idx + 1) cs)"
    proof
      assume "idx \<in> set (unpack_shared_from (idx + 1) cs)"
      then obtain m where m: "m < length cs" and "idx = idx + 1 + of_nat m"
        by (auto simp: set_unpack_shared_from)
      then have "idx + of_nat (Suc m) = idx" by (simp add: add.assoc)
      moreover have "Suc m < 2 ^ 32" using m Cons.prems(1) by simp
      ultimately show False using u32_add_of_nat_neq [of "Suc m" idx] by simp
    qed
    then have "count_list (unpack_shared_from (idx + 1) cs) idx = 0"
      by (rule count_list_zero)
    then show ?thesis using 0 by (simp add: count_list_replicate)
  next
    case (Suc k')
    have ne: "idx \<noteq> idx + of_nat (Suc k')"
      using u32_add_of_nat_neq [of "Suc k'" idx] Cons.prems Suc by auto
    have "count_list (unpack_shared_from (idx + 1) cs) (idx + 1 + of_nat k') = unat (cs ! k') + 2"
      using Cons.prems Suc by (intro Cons.IH) auto
    moreover have "idx + 1 + of_nat k' = idx + of_nat (Suc k')" by (simp add: add.assoc)
    ultimately show ?thesis using Suc ne by (simp add: count_list_replicate)
  qed
qed

text \<open>
  Claim C2.  For a non-decreasing shared-files vector whose values are exactly \<open>0..max\<close>,
  each occurring at least twice, \<open>pack_shared_files\<close> succeeds, unpacking its result gives
  the vector back, the \<open>k\<close>-th packed value plus 2 is the number of occurrences of \<open>k\<close> (a run
  of at least two), and the count of shared files the reader derives from the packed table
  is the length of the vector.  The vector is sized by a \<open>uint32_t\<close> in the visitor's
  constructor, so its length is below \<open>2 ^ 32\<close>.
\<close>

theorem pack_shared_files_roundtrip:
  assumes "sorted v" and "length v < 2 ^ 32"
    and "\<forall>y\<in>set v. \<forall>x\<le>y. 2 \<le> count_list v x"
  shows "\<exists>p. pack_shared_files v = Inr p \<and> unpack_shared p = v
           \<and> (\<forall>k<length p. unat (p ! k) + 2 = count_list v (of_nat k))
           \<and> num_reg_shared_packed p = length v"
proof (cases "v = []")
  case True
  then show ?thesis
    by (simp add: pack_shared_files_def unpack_shared_def num_reg_shared_packed_eq)
next
  case False
  then obtain y where y: "y \<in> set v" by (cases v) auto
  have h2: "\<forall>x\<in>set v. 0 \<le> x" by simp
  have h3: "\<forall>y\<in>set v. \<forall>x. 0 < x \<and> x \<le> y \<longrightarrow> 2 \<le> count_list v x"
    using assms(3) by blast
  have h4: "unat (0::u32) + length v < 2 ^ 32" using assms(2) by simp
  have h5: "2 \<le> unat (0::u32) + count_list v 0" using assms(3) y by simp
  obtain cnt last_idx new where
    r: "pack_shared_loop v 0 0 [] = Inr (cnt, last_idx, [] @ new)"
    and r2: "2 \<le> unat cnt"
    and r3: "replicate (unat (0::u32)) 0 @ v = unpack_shared_from 0 new @ replicate (unat cnt) last_idx"
    and r4: "last_idx = last (0 # v)"
    and r5: "unat last_idx = unat (0::u32) + length new"
    using pack_shared_loop_ok [OF assms(1) h2 h3 h4 h5, of "[]"] by blast
  define p where "p = new @ [cnt - 2]"
  have c2w: "2 \<le> cnt" using r2 by (simp add: word_le_nat_alt)
  have "unat (cnt - 2) = unat cnt - 2" using c2w by (simp add: unat_sub)
  then have cm: "unat (cnt - 2) + 2 = unat cnt" using r2 by simp
  have "of_nat (unat last_idx) = last_idx" by simp
  then have last_idx: "of_nat (length new) = last_idx" using r5 by simp
  have v_eq: "v = unpack_shared_from 0 new @ replicate (unat cnt) last_idx" using r3 by simp
  have unp: "unpack_shared p = v"
    unfolding unpack_shared_def p_def unpack_shared_from_append using cm last_idx v_eq by simp
  have "length v = length (unpack_shared_from 0 p)" using unp by (simp add: unpack_shared_def)
  then have len: "length v = sum_list (map unat p) + 2 * length p"
    by (simp add: length_unpack_shared_from)
  then have lp: "2 * length p < 2 ^ 32" using assms(2) by simp
  have "unat last_idx + 1 < 2 ^ 32" using lp r5 by (simp add: p_def)
  then have "unat (last_idx + 1) = unat last_idx + 1" by (rule unat_suc_u32)
  then have size_ok: "length p = unat (last v + 1)" using r4 r5 False by (simp add: p_def)
  have pk: "pack_shared_files v = Inr p"
    using False assms(1) r size_ok by (simp add: pack_shared_files_def p_def)
  have cnts: "\<forall>k<length p. unat (p ! k) + 2 = count_list v (of_nat k)"
  proof (intro allI impI)
    fix k assume k: "k < length p"
    have "length p < 2 ^ 32" using lp by simp
    then have "count_list (unpack_shared_from 0 p) (0 + of_nat k) = unat (p ! k) + 2"
      using k by (rule count_list_unpack_shared_from)
    then show "unat (p ! k) + 2 = count_list v (of_nat k)"
      using unp by (simp add: unpack_shared_def)
  qed
  have "num_reg_shared_packed p = length v"
    using len assms(2) by (simp add: num_reg_shared_packed_eq)
  then show ?thesis using pk unp cnts by blast
qed

theorem pack_shared_files_roundtrip_witness:
  "sorted [0, 0, 1, 1, 1, 2, 2 :: u32] \<and> length [0, 0, 1, 1, 1, 2, 2 :: u32] < 2 ^ 32
   \<and> (\<exists>p. pack_shared_files [0, 0, 1, 1, 1, 2, 2] = Inr p \<and> unpack_shared p = [0, 0, 1, 1, 1, 2, 2]
           \<and> (\<forall>k<length p. unat (p ! k) + 2 = count_list [0, 0, 1, 1, 1, 2, 2 :: u32] (of_nat k))
           \<and> num_reg_shared_packed p = length [0, 0, 1, 1, 1, 2, 2 :: u32])"
proof -
  have h1: "sorted [0, 0, 1, 1, 1, 2, 2 :: u32]" by simp
  have h2: "length [0, 0, 1, 1, 1, 2, 2 :: u32] < 2 ^ 32" by simp
  have h3: "\<forall>y\<in>set [0, 0, 1, 1, 1, 2, 2 :: u32]. \<forall>x\<le>y. 2 \<le> count_list [0, 0, 1, 1, 1, 2, 2 :: u32] x"
  proof (intro ballI allI impI)
    fix y x :: u32 assume "y \<in> set [0, 0, 1, 1, 1, 2, 2]" and "x \<le> y"
    then have "unat x \<le> unat y" and "unat y \<le> 2"
      by (auto simp: word_le_nat_alt)
    then consider "unat x = 0" | "unat x = 1" | "unat x = 2" by arith
    then have "x = 0 \<or> x = 1 \<or> x = 2"
    proof cases
      case 1 then show ?thesis by (simp add: unat_eq_0)
    next
      case 2 then show ?thesis using word_unat_eq_iff [of x 1] by simp
    next
      case 3 then show ?thesis using word_unat_eq_iff [of x 2] by simp
    qed
    then show "2 \<le> count_list [0, 0, 1, 1, 1, 2, 2] x"
      by (elim disjE) simp_all
  qed
  show ?thesis
    by (intro conjI h1 h2 pack_shared_files_roundtrip [OF h1 h2 h3])
qed
section \<open>The chunk table\<close>

lemma save_chunks_loop_ok:
  assumes "map (\<lambda>ino. unat (num ino)) inos = [k..<k + length inos]"
    and "k + length inos \<le> length table"
  shows "\<exists>table'. save_chunks_loop inos (table, cs) = Inr (table', cs @ concat (map inode_chunks inos))
           \<and> length table' = length table
           \<and> (\<forall>j<length table. table' ! j =
                 (if k \<le> j \<and> j < k + length inos
                  then of_nat (length cs + length (concat (map inode_chunks (take (j - k) inos))))
                  else table ! j))"
  using assms
proof (induction inos arbitrary: k table cs)
  case Nil
  then show ?case by auto
next
  case (Cons ino inos)
  have "[k..<k + length (ino # inos)] = k # [Suc k..<Suc k + length inos]"
    by (subst upt_rec) simp
  then have "map (\<lambda>ino. unat (num ino)) (ino # inos) = k # [Suc k..<Suc k + length inos]"
    using Cons.prems(1) by (simp only:)
  then have n: "unat (num ino) = k" and rest: "map (\<lambda>ino. unat (num ino)) inos = [Suc k..<Suc k + length inos]"
    by (simp_all del: upt_Suc)
  have kl: "k < length table" and sl: "Suc k + length inos \<le> length table"
    using Cons.prems(2) by simp_all
  define table1 where "table1 = table[k := of_nat (length cs)]"
  have st: "chunk_table_store (unat (num ino)) (table, cs) = Inr (table1, cs)"
    using n kl by (simp add: chunk_table_store_def table1_def)
  have sl1: "Suc k + length inos \<le> length table1" using sl by (simp add: table1_def)
  obtain table' where
    r: "save_chunks_loop inos (table1, cs @ inode_chunks ino)
          = Inr (table', (cs @ inode_chunks ino) @ concat (map inode_chunks inos))"
    and l: "length table' = length table1"
    and c: "\<forall>j<length table1. table' ! j =
                 (if Suc k \<le> j \<and> j < Suc k + length inos
                  then of_nat (length (cs @ inode_chunks ino)
                               + length (concat (map inode_chunks (take (j - Suc k) inos))))
                  else table1 ! j)"
    using Cons.IH [OF rest sl1] by blast
  have "save_chunks_loop (ino # inos) (table, cs)
          = Inr (table', cs @ concat (map inode_chunks (ino # inos)))"
    using st r by simp
  moreover have "length table' = length table" using l by (simp add: table1_def)
  moreover have "\<forall>j<length table. table' ! j =
                 (if k \<le> j \<and> j < k + length (ino # inos)
                  then of_nat (length cs + length (concat (map inode_chunks (take (j - k) (ino # inos)))))
                  else table ! j)"
  proof (intro allI impI)
    fix j assume j: "j < length table"
    then have cj: "table' ! j =
                 (if Suc k \<le> j \<and> j < Suc k + length inos
                  then of_nat (length (cs @ inode_chunks ino)
                               + length (concat (map inode_chunks (take (j - Suc k) inos))))
                  else table1 ! j)"
      using c by (simp add: table1_def)
    consider "j < k" | "j = k" | "Suc k \<le> j"
      by arith
    then show "table' ! j =
                 (if k \<le> j \<and> j < k + length (ino # inos)
                  then of_nat (length cs + length (concat (map inode_chunks (take (j - k) (ino # inos)))))
                  else table ! j)"
    proof cases
      case 1
      then show ?thesis using cj by (simp add: table1_def)
    next
      case 2
      then show ?thesis using cj kl by (simp add: table1_def)
    next
      case 3
      then have "j - k = Suc (j - Suc k)" by simp
      then show ?thesis using cj 3 by (simp add: table1_def add.assoc)
    qed
  qed
  ultimately show ?case by blast
qed

lemma concat_take_drop:
  assumes "f < length xss"
  shows "take (length (xss ! f)) (drop (length (concat (take f xss))) (concat xss)) = xss ! f"
proof -
  have "concat xss = concat (take f xss) @ concat (drop f xss)"
    by (metis append_take_drop_id concat_append)
  then have "drop (length (concat (take f xss))) (concat xss) = concat (drop f xss)"
    by (metis append_eq_conv_conj)
  also have "\<dots> = xss ! f @ concat (drop (Suc f) xss)"
    using assms by (simp add: Cons_nth_drop_Suc [symmetric])
  finally show ?thesis by simp
qed

lemma length_concat_take_mono:
  "a \<le> b \<Longrightarrow> length (concat (take a xss)) \<le> length (concat (take b xss))"
proof -
  assume "a \<le> b"
  then have "take b xss = take a xss @ take (b - a) (drop a xss)"
    by (metis le_add_diff_inverse take_add)
  then show ?thesis by simp
qed

lemma length_concat_take_le: "length (concat (take a xss)) \<le> length (concat xss)"
  using length_concat_take_mono [of a "max a (length xss)" xss] by simp

lemma adjacent_difference_from_sum:
  "sorted (prev # xs) \<Longrightarrow>
   sum_list (map unat (adjacent_difference_from prev xs)) = unat (last (prev # xs)) - unat prev"
proof (induction xs arbitrary: prev)
  case Nil
  then show ?case by simp
next
  case (Cons x xs)
  have le: "prev \<le> x" and s: "sorted (x # xs)" using Cons.prems by simp_all
  have "unat (x - prev) = unat x - unat prev" using le by (simp add: unat_sub)
  moreover have "unat prev \<le> unat x" using le by (simp add: word_le_nat_alt)
  moreover have "unat x \<le> unat (last (x # xs))"
    using s by (metis last_in_set list.distinct(1) order_refl set_ConsD sorted_simps(2) word_le_nat_alt)
  ultimately show ?case using Cons.IH [OF s] by simp
qed

lemma adjacent_difference_from_nth:
  "j < length xs \<Longrightarrow> adjacent_difference_from prev xs ! j = xs ! j - (prev # xs) ! j"
  by (induction xs arbitrary: prev j) (auto simp: nth_Cons split: nat.splits)

lemma length_adjacent_difference_from: "length (adjacent_difference_from prev xs) = length xs"
  by (induction xs arbitrary: prev) simp_all

lemma accumulate_size_t_0:
  "accumulate_size_t xs 0 = sum_list (map unat xs) mod 2 ^ 64"
  using accumulate_size_t_eq [of xs 0] by simp

text \<open>
  Claim C5, with the bound the table's element type forces.  Let the inode manager hand
  over the unique files in the order of their numbers \<open>0, 1, \<dots>\<close> and let the total number of
  chunks be below \<open>2 ^ 32\<close>.  Then \<open>chunk_table\<close> has one entry per unique file plus the
  sentinel, \<open>chunk_table[f]\<close> is the position in \<open>chunks\<close> at which the chunks of file \<open>f\<close>
  start, the sentinel is the number of chunks, and the values are non-decreasing.  Without
  \<open>pack_chunk_table\<close> the table is stored as it is; with it the stored table holds the first
  value followed by the successive differences, and the sum the reader computes over it is
  the number of chunks.
\<close>

theorem save_chunks_table:
  assumes nums: "map (\<lambda>ino. unat (num ino)) inos = [0..<length inos]"
    and small: "length (concat (map inode_chunks inos)) < 2 ^ 32"
  shows "\<exists>ct. save_chunks inos (length inos) = Inr (ct, concat (map inode_chunks inos))
           \<and> length ct = length inos + 1
           \<and> (\<forall>f<length inos.
                 unat (ct ! f) = length (concat (map inode_chunks (take f inos))) \<and>
                 take (length (inode_chunks (inos ! f)))
                      (drop (unat (ct ! f)) (concat (map inode_chunks inos))) = inode_chunks (inos ! f))
           \<and> unat (ct ! length inos) = length (concat (map inode_chunks inos))
           \<and> sorted ct
           \<and> pack_chunk_table False ct = ct
           \<and> length (pack_chunk_table True ct) = length ct
           \<and> pack_chunk_table True ct ! 0 = ct ! 0
           \<and> (\<forall>f<length inos. pack_chunk_table True ct ! Suc f = ct ! Suc f - ct ! f)
           \<and> accumulate_size_t (pack_chunk_table True ct) 0 = length (concat (map inode_chunks inos))"
proof -
  define n where "n = length inos"
  define xss where "xss = map inode_chunks inos"
  define L where "L f = length (concat (take f xss))" for f
  have Ln: "L n = length (concat xss)" by (simp add: L_def n_def xss_def)
  have Lmono: "\<And>a b. a \<le> b \<Longrightarrow> L a \<le> L b" unfolding L_def by (rule length_concat_take_mono)
  have Lsmall: "\<And>f. L f < 2 ^ 32"
    using length_concat_take_le [of _ xss] small unfolding L_def xss_def
    by (meson le_less_trans)
  have unatL: "\<And>f. unat (of_nat (L f) :: u32) = L f"
    using Lsmall by (simp add: unat_of_nat)
  have h1: "map (\<lambda>ino. unat (num ino)) inos = [0..<0 + length inos]" using nums by simp
  have h2: "0 + length inos \<le> length (replicate (n + 1) (0::u32))" by (simp add: n_def)
  obtain table' where
    r: "save_chunks_loop inos (replicate (n + 1) 0, []) = Inr (table', [] @ concat (map inode_chunks inos))"
    and l: "length table' = length (replicate (n + 1) (0::u32))"
    and c: "\<forall>j<length (replicate (n + 1) (0::u32)). table' ! j =
                 (if 0 \<le> j \<and> j < 0 + length inos
                  then of_nat (length ([]::chunk list) + length (concat (map inode_chunks (take (j - 0) inos))))
                  else replicate (n + 1) 0 ! j)"
    using save_chunks_loop_ok [OF h1 h2, of "[]"] by blast
  have l': "length table' = n + 1" using l by simp
  have c': "\<And>j. j < n \<Longrightarrow> table' ! j = of_nat (L j)"
    using c by (simp add: n_def L_def xss_def take_map)
  define ct where "ct = table'[n := of_nat (length (concat xss))]"
  have sc: "save_chunks inos (length inos) = Inr (ct, concat (map inode_chunks inos))"
    using r l' by (simp add: save_chunks_def chunk_table_store_def ct_def n_def xss_def)
  have lct: "length ct = n + 1" by (simp add: ct_def l')
  have ctf: "\<And>f. f \<le> n \<Longrightarrow> ct ! f = of_nat (L f)"
  proof -
    fix f assume "f \<le> n"
    then consider "f < n" | "f = n" by arith
    then show "ct ! f = of_nat (L f)"
    proof cases
      case 1 then show ?thesis using c' by (simp add: ct_def)
    next
      case 2 then show ?thesis using l' Ln by (simp add: ct_def)
    qed
  qed
  have uct: "\<And>f. f \<le> n \<Longrightarrow> unat (ct ! f) = L f" by (simp add: ctf unatL)
  have p1: "\<forall>f<length inos.
                 unat (ct ! f) = length (concat (map inode_chunks (take f inos))) \<and>
                 take (length (inode_chunks (inos ! f)))
                      (drop (unat (ct ! f)) (concat (map inode_chunks inos))) = inode_chunks (inos ! f)"
  proof (intro allI impI conjI)
    fix f assume f: "f < length inos"
    then have u: "unat (ct ! f) = L f" using uct [of f] by (simp add: n_def)
    then show "unat (ct ! f) = length (concat (map inode_chunks (take f inos)))"
      by (simp add: L_def xss_def take_map)
    have "take (length (xss ! f)) (drop (length (concat (take f xss))) (concat xss)) = xss ! f"
      using f by (intro concat_take_drop) (simp add: xss_def)
    then show "take (length (inode_chunks (inos ! f)))
                      (drop (unat (ct ! f)) (concat (map inode_chunks inos))) = inode_chunks (inos ! f)"
      using f u by (simp add: L_def xss_def)
  qed
  have p2: "unat (ct ! length inos) = length (concat (map inode_chunks inos))"
    using uct [of n] Ln by (simp add: n_def xss_def)
  have p3: "sorted ct"
  proof (subst sorted_iff_nth_mono, intro allI impI)
    fix i j assume "i \<le> j" and "j < length ct"
    then have "unat (ct ! i) \<le> unat (ct ! j)" using lct by (simp add: uct Lmono)
    then show "ct ! i \<le> ct ! j" by (simp add: word_le_nat_alt)
  qed
  obtain x rest where xr: "ct = x # rest" using lct by (cases ct) simp_all
  have lrest: "length rest = n" using lct xr by simp
  have pk: "pack_chunk_table True ct = x # adjacent_difference_from x rest"
    by (simp add: pack_chunk_table_def adjacent_difference_def xr)
  have p4: "pack_chunk_table False ct = ct" by (simp add: pack_chunk_table_def)
  have p5: "length (pack_chunk_table True ct) = length ct"
    unfolding pk by (simp add: xr length_adjacent_difference_from)
  have p6: "pack_chunk_table True ct ! 0 = ct ! 0" unfolding pk by (simp add: xr)
  have p7: "\<forall>f<length inos. pack_chunk_table True ct ! Suc f = ct ! Suc f - ct ! f"
    unfolding pk using lrest by (simp add: xr adjacent_difference_from_nth n_def)
  have x0: "unat x = 0" using uct [of 0] by (simp add: xr L_def)
  have "sorted (x # rest)" using p3 xr by simp
  then have "sum_list (map unat (adjacent_difference_from x rest)) = unat (last (x # rest)) - unat x"
    by (rule adjacent_difference_from_sum)
  moreover have "last (x # rest) = ct ! n" using xr lct by (metis add_diff_cancel_right' last_conv_nth list.distinct(1))
  ultimately have "sum_list (map unat (pack_chunk_table True ct)) = L n"
    unfolding pk using x0 uct [of n] by simp
  then have p8: "accumulate_size_t (pack_chunk_table True ct) 0 = length (concat (map inode_chunks inos))"
    using Lsmall [of n] Ln by (simp add: accumulate_size_t_0 xss_def)
  show ?thesis using sc lct p1 p2 p3 p4 p5 p6 p7 p8 unfolding n_def by blast
qed

lemma example_inodes_nums:
  "map (\<lambda>ino. unat (num ino)) example_inodes = [0..<length example_inodes]"
  by (simp add: example_inodes_def upt_rec)

lemma example_inodes_small: "length (concat (map inode_chunks example_inodes)) < 2 ^ 32"
  by (simp add: example_inodes_def)

theorem save_chunks_table_witness:
  "map (\<lambda>ino. unat (num ino)) example_inodes = [0..<length example_inodes] \<and>
   length (concat (map inode_chunks example_inodes)) < 2 ^ 32 \<and>
   (\<exists>ct. save_chunks example_inodes (length example_inodes)
            = Inr (ct, concat (map inode_chunks example_inodes))
           \<and> length ct = length example_inodes + 1
           \<and> (\<forall>f<length example_inodes.
                 unat (ct ! f) = length (concat (map inode_chunks (take f example_inodes))) \<and>
                 take (length (inode_chunks (example_inodes ! f)))
                      (drop (unat (ct ! f)) (concat (map inode_chunks example_inodes)))
                   = inode_chunks (example_inodes ! f))
           \<and> unat (ct ! length example_inodes) = length (concat (map inode_chunks example_inodes))
           \<and> sorted ct
           \<and> pack_chunk_table False ct = ct
           \<and> length (pack_chunk_table True ct) = length ct
           \<and> pack_chunk_table True ct ! 0 = ct ! 0
           \<and> (\<forall>f<length example_inodes. pack_chunk_table True ct ! Suc f = ct ! Suc f - ct ! f)
           \<and> accumulate_size_t (pack_chunk_table True ct) 0
                = length (concat (map inode_chunks example_inodes)))"
  by (intro conjI example_inodes_nums example_inodes_small
        save_chunks_table [OF example_inodes_nums example_inodes_small])

text \<open>
  One file of \<open>2 ^ 32\<close> chunks: the sentinel, narrowed to \<open>uint32_t\<close>, is \<open>0\<close> and not the
  number of chunks.
\<close>

theorem chunk_count_counterexample:
  "save_chunks [\<lparr>num = 0, inode_chunks = replicate (2 ^ 32) one_chunk\<rparr>] 1
     = Inr ([0, 0], replicate (2 ^ 32) one_chunk) \<and>
   unat ([0, 0 :: u32] ! 1) \<noteq> length (replicate (2 ^ 32) one_chunk)"
  by (simp add: save_chunks_def chunk_table_store_def)

section \<open>Unreadable files\<close>

lemma add_entry_unreadable_step:
  assumes "created env = Inr (Some pe0)"
    and "apply_script (scr env) (Some pe0) = Inr (False, Some pe)"
    and "etype pe = E_FILE"
    and "access env (path pe) \<noteq> 0"
  shows "add_entry env False st
         = count_and_scan env False (pe\<lparr>st_size := 0\<rparr>)
             (st\<lparr>error_log := error_log st @ [''cannot access '' @ path pe @ '', creating empty file''],
                 prog := (prog st)\<lparr>errors := errors (prog st) + 1\<rparr>,
                 parent_entries := parent_entries st @ [pe\<lparr>st_size := 0\<rparr>]\<rparr>)"
  using assms
  by (simp add: add_entry_def call_debug_filter_def Let_def count_error_def log_error_def)

text \<open>
  Claim C8.  In a build (\<open>debug_filter\<close> is false), when \<open>add_entry\<close> meets a regular file
  (created without an exception and not excluded by the filter) whose access check fails:
  \<^item> it logs the error, sets the size of the entry to 0 and adds the entry to its parent;
  \<^item> it adds 1 to the error counter and 1 to \<open>files_found\<close>;
  \<^item> it hands the empty entry to the file scanner, as for every other file, so that the
    file is part of the image: the file scanner's state and the counters after the call are
    what \<open>fs.scan\<close> returns for that entry;
  \<^item> it returns the entry, and nothing else of the state changes.

  The file scanner is defined outside the files verified here.  What is assumed of it: on
  the empty entry it returns, without a \<open>std::system_error\<close>, the state \<open>fs'\<close> and the counters
  \<open>p'\<close>; and whenever it returns, \<open>errors\<close> and \<open>files_found\<close> are as it found them.
\<close>

theorem add_entry_unreadable_file:
  assumes "created env = Inr (Some pe0)"
    and "apply_script (scr env) (Some pe0) = Inr (False, Some pe)"
    and "etype pe = E_FILE"
    and "access env (path pe) \<noteq> 0"
    and "fs_scan env (pe\<lparr>st_size := 0\<rparr>) (fs st)
           ((prog st)\<lparr>errors := errors (prog st) + 1, files_found := files_found (prog st) + 1\<rparr>)
         = Inr (fs', p')"
    and "\<forall>e f p f' q. fs_scan env e f p = Inr (f', q)
           \<longrightarrow> errors q = errors p \<and> files_found q = files_found p"
  shows "\<exists>st'. add_entry env False st = Inr (Some (pe\<lparr>st_size := 0\<rparr>), st')
           \<and> st' = st\<lparr>prog := p', parent_entries := parent_entries st @ [pe\<lparr>st_size := 0\<rparr>],
                      fs := fs',
                      error_log := error_log st
                        @ [''cannot access '' @ path pe @ '', creating empty file'']\<rparr>
           \<and> errors (prog st') = errors (prog st) + 1
           \<and> files_found (prog st') = files_found (prog st) + 1
           \<and> fs st' = fs'
           \<and> last (parent_entries st') = pe\<lparr>st_size := 0\<rparr>"
proof -
  define pe' where "pe' = pe\<lparr>st_size := 0\<rparr>"
  define msg where "msg = ''cannot access '' @ path pe @ '', creating empty file''"
  define st2 where "st2 = st\<lparr>error_log := error_log st @ [msg],
                             prog := (prog st)\<lparr>errors := errors (prog st) + 1\<rparr>,
                             parent_entries := parent_entries st @ [pe']\<rparr>"
  have a: "add_entry env False st = count_and_scan env False pe' st2"
    unfolding pe'_def st2_def msg_def using assms(1-4) by (rule add_entry_unreadable_step)
  have t: "etype pe' = E_FILE" using assms(3) by (simp add: pe'_def)
  have s: "fs_scan env pe' (fs st2) ((prog st2)\<lparr>files_found := files_found (prog st2) + 1\<rparr>)
           = Inr (fs', p')"
    using assms(5) by (simp add: st2_def pe'_def)
  have "count_and_scan env False pe' st2
        = Inr (Some pe', st2\<lparr>prog := p', fs := fs'\<rparr>)"
    using t s by (simp add: count_and_scan_def Let_def)
  then have r: "add_entry env False st
        = Inr (Some pe', st\<lparr>prog := p', parent_entries := parent_entries st @ [pe'],
                           fs := fs', error_log := error_log st @ [msg]\<rparr>)"
    using a by (simp add: st2_def)
  have "errors p' = errors ((prog st)\<lparr>errors := errors (prog st) + 1,
                                       files_found := files_found (prog st) + 1\<rparr>)
        \<and> files_found p' = files_found ((prog st)\<lparr>errors := errors (prog st) + 1,
                                       files_found := files_found (prog st) + 1\<rparr>)"
    using assms(5,6) by blast
  then have c: "errors p' = errors (prog st) + 1" "files_found p' = files_found (prog st) + 1"
    by simp_all
  show ?thesis
    using r c unfolding pe'_def msg_def by simp
qed

theorem add_entry_unreadable_file_witness:
  "add_entry unreadable_env False empty_scan_state
     = Inr (Some \<lparr>path = ''/somedir/ipsum.py'', etype = E_FILE, st_size = 0\<rparr>,
            \<lparr>prog = \<lparr>errors = 1, dirs_found = 2, files_found = 1, symlinks_found = 0,
                      symlinks_scanned = 0, specials_found = 0\<rparr>,
             parent_entries = [\<lparr>path = ''/somedir/ipsum.py'', etype = E_FILE, st_size = 0\<rparr>],
             fs = [\<lparr>path = ''/somedir/ipsum.py'', etype = E_FILE, st_size = 0\<rparr>],
             error_log = [''cannot access /somedir/ipsum.py, creating empty file''],
             debug_out = []\<rparr>)"
proof -
  let ?pe = "\<lparr>path = ''/somedir/ipsum.py'', etype = E_FILE, st_size = 10000\<rparr>"
  let ?p' = "\<lparr>errors = 1, dirs_found = 2, files_found = 1, symlinks_found = 0,
              symlinks_scanned = 0, specials_found = 0\<rparr>"
  have h1: "created unreadable_env = Inr (Some ?pe)" by (simp add: unreadable_env_def)
  have h2: "apply_script (scr unreadable_env) (Some ?pe) = Inr (False, Some ?pe)"
    by (simp add: apply_script_def unreadable_env_def)
  have h3: "etype ?pe = E_FILE" by simp
  have h4: "access unreadable_env (path ?pe) \<noteq> 0" by (simp add: unreadable_env_def)
  have h5: "fs_scan unreadable_env (?pe\<lparr>st_size := 0\<rparr>) (fs empty_scan_state)
              ((prog empty_scan_state)\<lparr>errors := errors (prog empty_scan_state) + 1,
                 files_found := files_found (prog empty_scan_state) + 1\<rparr>)
            = Inr ([?pe\<lparr>st_size := 0\<rparr>], ?p')"
    by (simp add: unreadable_env_def empty_scan_state_def)
  have h6: "\<forall>e f p f' q. fs_scan unreadable_env e f p = Inr (f', q)
              \<longrightarrow> errors q = errors p \<and> files_found q = files_found p"
    by (simp add: unreadable_env_def)
  show ?thesis
    using add_entry_unreadable_file [OF h1 h2 h3 h4 h5 h6]
    by (simp add: empty_scan_state_def)
qed

text \<open>
  When the file scanner throws a \<open>std::system_error\<close> on the empty entry, \<open>add_entry\<close> still
  returns (a null pointer); the entry stays in its parent and a second error is counted.
\<close>

lemma unreadable_file_scan_error:
  assumes "created env = Inr (Some pe0)"
    and "apply_script (scr env) (Some pe0) = Inr (False, Some pe)"
    and "etype pe = E_FILE"
    and "access env (path pe) \<noteq> 0"
    and "fs_scan env (pe\<lparr>st_size := 0\<rparr>) (fs st)
           ((prog st)\<lparr>errors := errors (prog st) + 1, files_found := files_found (prog st) + 1\<rparr>)
         = Inl what"
  shows "add_entry env False st
         = Inr (None,
                st\<lparr>prog := (prog st)\<lparr>errors := errors (prog st) + 2,
                                      files_found := files_found (prog st) + 1\<rparr>,
                    parent_entries := parent_entries st @ [pe\<lparr>st_size := 0\<rparr>],
                    error_log := error_log st
                      @ [''cannot access '' @ path pe @ '', creating empty file'',
                         ''error reading entry: '' @ what]\<rparr>)"
proof -
  have t: "etype (pe\<lparr>st_size := 0\<rparr>) = E_FILE" using assms(3) by simp
  show ?thesis
    unfolding add_entry_unreadable_step [OF assms(1-4)]
    using t assms(5)
    by (simp add: count_and_scan_def Let_def catch_system_error_def count_error_def log_error_def)
qed

text \<open>
  With \<open>debug_filter\<close> set (the tree is only listed, nothing is built) the entry is counted
  and added in the same way, after the callback, and the file scanner is not called.
\<close>

lemma unreadable_file_debug_filter:
  assumes "created env = Inr (Some pe0)"
    and "apply_script (scr env) (Some pe0) = Inr (False, Some pe)"
    and "etype pe = E_FILE"
    and "access env (path pe) \<noteq> 0"
    and "debug_filter_function env = Some f"
  shows "add_entry env True st
         = Inr (Some (pe\<lparr>st_size := 0\<rparr>),
                st\<lparr>prog := (prog st)\<lparr>errors := errors (prog st) + 1,
                                      files_found := files_found (prog st) + 1\<rparr>,
                    parent_entries := parent_entries st @ [pe\<lparr>st_size := 0\<rparr>],
                    error_log := error_log st
                      @ [''cannot access '' @ path pe @ '', creating empty file''],
                    debug_out := debug_out st @ [f False (Some pe)]\<rparr>)"
  using assms
  by (simp add: add_entry_def call_debug_filter_def Let_def count_error_def log_error_def
      count_and_scan_def)

section \<open>Parent of a directory\<close>

lemma example_unpack:
  "unpack_directories example_image_packed = Some (Inr example_directories)"
  apply (simp add: unpack_directories_def example_image_packed_def example_image_def
      pack_directories_def example_directories_def example_dir_entries_def delta_decode_def decode_step_def upt_rec)
  apply (subst unpack_loop.simps, simp add: scan_entries.simps size_t_sub_def)
  apply (subst unpack_loop.simps, simp add: scan_entries.simps size_t_sub_def)
  apply (subst unpack_loop.simps, simp add: scan_entries.simps size_t_sub_def)
  apply (subst unpack_loop.simps, simp add: scan_entries.simps size_t_sub_def)
  done

lemma example_g_made:
  "make_global_metadata example_image_packed True example_names = Some (Inr example_g)"
  by (simp add: make_global_metadata_def example_image_packed_accepted example_unpack example_g_def)


text \<open>
  Claim C9.  \<open>parent_inode\<close> of the root (inode 0) is 0.  For any other directory \<open>d\<close>,
  whose row of the directory table is \<open>dir\<close>, it is the \<open>inode_num\<close> of the entry
  \<open>parent_entry dir\<close> in the current layout, and \<open>parent_entry dir\<close> itself in the v2.2
  layout.
\<close>

theorem parent_inode_cases:
  "parent_inode g 0 = Inr 0 \<and>
   (d \<noteq> 0 \<longrightarrow> g_directory g d = Inr dir \<longrightarrow> dir_entries (g_meta g) = Some des \<longrightarrow>
      unat (parent_entry dir) < length des \<longrightarrow>
      parent_inode g d = Inr (inode_num (des ! unat (parent_entry dir)))) \<and>
   (d \<noteq> 0 \<longrightarrow> g_directory g d = Inr dir \<longrightarrow> dir_entries (g_meta g) = None \<longrightarrow>
      parent_inode g d = Inr (parent_entry dir))"
  by (simp add: parent_inode_def parent_dir_entry_def)

lemma legacy_image_accepted: "check_metadata legacy_image True = Inr legacy_image"
  by (simp add: check_defs upt_0_6 legacy_image_def)

theorem parent_inode_cases_witness:
  "parent_inode example_g 0 = Inr 0 \<and> parent_inode example_g 2 = Inr 1 \<and>
   parent_inode legacy_g 1 = Inr 0"
proof -
  have a: "g_directory example_g 2 = Inr \<lparr>parent_entry = 1, first_entry = 10\<rparr>"
    by (simp add: g_directory_def example_g_def example_directories_def)
  have b: "dir_entries (g_meta example_g) = Some example_dir_entries"
    by (simp add: example_g_def example_image_packed_def example_image_def)
  have c: "unat (parent_entry \<lparr>parent_entry = 1, first_entry = 10\<rparr>) < length example_dir_entries"
    by (simp add: example_dir_entries_def)
  have d: "g_directory legacy_g 1 = Inr \<lparr>parent_entry = 0, first_entry = 2\<rparr>"
    by (simp add: g_directory_def legacy_g_def legacy_image_def)
  have e: "dir_entries (g_meta legacy_g) = None"
    by (simp add: legacy_g_def legacy_image_def)
  have "parent_inode example_g 0 = Inr 0"
    using parent_inode_cases [of example_g] by simp
  moreover have "parent_inode example_g 2 = Inr 1"
    using parent_inode_cases [of example_g 2 "\<lparr>parent_entry = 1, first_entry = 10\<rparr>" example_dir_entries]
      a b c by (simp add: example_dir_entries_def)
  moreover have "parent_inode legacy_g 1 = Inr 0"
    using parent_inode_cases [of legacy_g 1 "\<lparr>parent_entry = 0, first_entry = 2\<rparr>"] d e by simp
  ultimately show ?thesis by simp
qed

section \<open>Unpacking the directories\<close>

lemma length_pack_directories_loop: "length (pack_directories_loop l ds) = length ds"
  by (induction ds arbitrary: l) (simp_all add: Let_def)

lemma nth_pack_directories_loop:
  "i < length ds \<Longrightarrow>
   pack_directories_loop l ds ! i =
     \<lparr>parent_entry = 0, first_entry = first_entry (ds ! i) - (if i = 0 then l else first_entry (ds ! (i - 1)))\<rparr>"
proof (induction ds arbitrary: l i)
  case Nil
  then show ?case by simp
next
  case (Cons d ds)
  show ?case
  proof (cases i)
    case 0
    then show ?thesis by (simp add: Let_def)
  next
    case (Suc j)
    then have "j < length ds" using Cons.prems by simp
    then show ?thesis using Suc Cons.IH [of j "first_entry d"]
      by (cases j) (simp_all add: Let_def)
  qed
qed

lemma delta_decode_prefix:
  assumes "1 \<le> k" and "k \<le> length ds"
  shows "fold (decode_step (pack_directories_loop 0 ds)) [1..<k]
           ((replicate (length ds) \<lparr>parent_entry = 0, first_entry = 0\<rparr>)
              [0 := \<lparr>parent_entry = 0, first_entry = first_entry (pack_directories_loop 0 ds ! 0)\<rparr>])
         = map (\<lambda>d. \<lparr>parent_entry = 0, first_entry = first_entry d\<rparr>) (take k ds)
           @ replicate (length ds - k) \<lparr>parent_entry = 0, first_entry = 0\<rparr>"
  using assms
proof (induction k)
  case 0
  then show ?case by simp
next
  case (Suc k)
  show ?case
  proof (cases "k = 0")
    case True
    obtain d rest where ds: "ds = d # rest" using Suc.prems by (cases ds) simp_all
    show ?thesis using True by (simp add: ds Let_def)
  next
    case False
    then have k1: "1 \<le> k" and kl: "k < length ds" using Suc.prems by simp_all
    let ?z = "\<lparr>parent_entry = 0, first_entry = 0\<rparr> :: directory"
    let ?m = "\<lambda>d. \<lparr>parent_entry = 0, first_entry = first_entry d\<rparr> :: directory"
    let ?cur = "map ?m (take k ds) @ replicate (length ds - k) ?z"
    have ih: "fold (decode_step (pack_directories_loop 0 ds)) [1..<k]
           ((replicate (length ds) ?z)[0 := \<lparr>parent_entry = 0, first_entry = first_entry (pack_directories_loop 0 ds ! 0)\<rparr>])
         = ?cur"
      using Suc.IH k1 kl by simp
    have "[1..<Suc k] = [1..<k] @ [k]" using k1 by simp
    then have "fold (decode_step (pack_directories_loop 0 ds)) [1..<Suc k]
           ((replicate (length ds) ?z)[0 := \<lparr>parent_entry = 0, first_entry = first_entry (pack_directories_loop 0 ds ! 0)\<rparr>])
         = decode_step (pack_directories_loop 0 ds) k ?cur"
      using ih by (simp del: upt_Suc)
    moreover have "decode_step (pack_directories_loop 0 ds) k ?cur
         = map ?m (take (Suc k) ds) @ replicate (length ds - Suc k) ?z"
    proof -
      have lk: "length (map ?m (take k ds)) = k" using kl by simp
      have prev: "?cur ! (k - 1) = ?m (ds ! (k - 1))"
        using k1 kl by (simp add: nth_append)
      have cur: "?cur ! k = ?z" using kl by (simp add: nth_append)
      have delta: "first_entry (pack_directories_loop 0 ds ! k) = first_entry (ds ! k) - first_entry (ds ! (k - 1))"
        using kl False by (simp add: nth_pack_directories_loop)
      have "decode_step (pack_directories_loop 0 ds) k ?cur = ?cur[k := ?m (ds ! k)]"
        unfolding decode_step_def prev cur delta by simp
      also have "\<dots> = map ?m (take k ds) @ (replicate (length ds - k) ?z)[0 := ?m (ds ! k)]"
        using lk by (simp add: list_update_append)
      also have "(replicate (length ds - k) ?z)[0 := ?m (ds ! k)]
                 = ?m (ds ! k) # replicate (length ds - Suc k) ?z"
      proof -
        have "length ds - k = Suc (length ds - Suc k)" using kl by simp
        then show ?thesis by (simp only: replicate_Suc list_update_code)
      qed
      also have "map ?m (take k ds) @ ?m (ds ! k) # replicate (length ds - Suc k) ?z
                 = map ?m (take (Suc k) ds) @ replicate (length ds - Suc k) ?z"
        using kl by (simp add: take_Suc_conv_app_nth)
      finally show ?thesis .
    qed
    ultimately show ?thesis by simp
  qed
qed

lemma delta_decode_pack:
  assumes "ds \<noteq> []"
  shows "delta_decode (pack_directories_loop 0 ds)
         = map (\<lambda>d. \<lparr>parent_entry = 0, first_entry = first_entry d\<rparr>) ds"
proof -
  have "1 \<le> length ds" using assms by (cases ds) simp_all
  then show ?thesis
    using delta_decode_prefix [of "length ds" ds]
    by (simp add: delta_decode_def length_pack_directories_loop)
qed

lemma length_set_parent [simp]: "length (set_parent dirent p e ds) = length ds"
  by (simp add: set_parent_def)

lemma length_fold_set_parent [simp]: "length (fold (set_parent dirent p) es ds) = length ds"
  by (induction es arbitrary: ds) simp_all

lemma first_entry_set_parent:
  "j < length ds \<Longrightarrow> first_entry (set_parent dirent p e ds ! j) = first_entry (ds ! j)"
  by (cases "entry_inode dirent e = j") (simp_all add: set_parent_def)

lemma first_entry_fold_set_parent:
  "j < length ds \<Longrightarrow> first_entry (fold (set_parent dirent p) es ds ! j) = first_entry (ds ! j)"
  by (induction es arbitrary: ds) (simp_all add: first_entry_set_parent)

lemma parent_entry_set_parent:
  "j < length ds \<Longrightarrow>
   parent_entry (set_parent dirent p e ds ! j)
     = (if j = entry_inode dirent e then p else parent_entry (ds ! j))"
  by (cases "entry_inode dirent e = j") (simp_all add: set_parent_def)

lemma parent_entry_fold_set_parent:
  "j < length ds \<Longrightarrow>
   parent_entry (fold (set_parent dirent p) es ds ! j)
     = (if j \<in> entry_inode dirent ` set es then p else parent_entry (ds ! j))"
proof (induction es arbitrary: ds)
  case Nil
  then show ?case by simp
next
  case (Cons e es)
  have "parent_entry (fold (set_parent dirent p) es (set_parent dirent p e ds) ! j)
        = (if j \<in> entry_inode dirent ` set es then p
           else parent_entry (set_parent dirent p e ds ! j))"
    using Cons.prems by (intro Cons.IH) simp
  then show ?case using Cons.prems by (auto simp: parent_entry_set_parent)
qed

lemma scan_entries_eq:
  assumes "unat e_end \<le> length dirent" and "1 \<le> length dirs" and "length dirs < 2 ^ 64"
  shows "scan_entries dirent parent e e_end (queue, dirs)
         = Inr (queue @ map of_nat (dir_kids dirent (length dirs - 1) (unat e) (unat e_end)),
                fold (set_parent dirent parent)
                  (dir_kids dirent (length dirs - 1) (unat e) (unat e_end)) dirs)"
  using assms(2,3)
proof (induction "unat e_end - unat e" arbitrary: e queue dirs rule: less_induct)
  case less
  have sub: "size_t_sub (length dirs) 1 = length dirs - 1"
  proof -
    have "size_t_sub (length dirs) 1 = (2 ^ 64 + (length dirs - 1)) mod 2 ^ 64"
      using less.prems(1) by (simp add: size_t_sub_def)
    also have "\<dots> = (length dirs - 1) mod 2 ^ 64" by (simp only: mod_add_self1)
    also have "\<dots> = length dirs - 1" using less.prems(2) by simp
    finally show ?thesis .
  qed
  show ?case
  proof (cases "e < e_end")
    case False
    then have "unat e_end \<le> unat e" by (simp add: word_less_nat_alt)
    then have "dir_kids dirent (length dirs - 1) (unat e) (unat e_end) = []"
      by (simp add: dir_kids_def)
    then show ?thesis using False by (subst scan_entries.simps) simp
  next
    case True
    have suc: "unat (e + 1) = Suc (unat e)" using True by (rule u32_less_unat_Suc)
    have lt: "unat e < unat e_end" using True by (simp add: word_less_nat_alt)
    then have inb: "unat e < length dirent" using assms(1) by simp
    have dec: "unat e_end - unat (e + 1) < unat e_end - unat e" using suc lt by simp
    have upt: "[unat e..<unat e_end] = unat e # [unat (e + 1)..<unat e_end]"
      using lt suc by (simp add: upt_conv_Cons)
    show ?thesis
    proof (cases "entry_inode dirent (unat e) < length dirs - 1")
      case kid: True
      let ?dirs = "set_parent dirent parent (unat e) dirs"
      have ih: "scan_entries dirent parent (e + 1) e_end (queue @ [e], ?dirs)
         = Inr ((queue @ [e]) @ map of_nat (dir_kids dirent (length ?dirs - 1) (unat (e + 1)) (unat e_end)),
                fold (set_parent dirent parent)
                  (dir_kids dirent (length ?dirs - 1) (unat (e + 1)) (unat e_end)) ?dirs)"
        using less.prems by (intro less.hyps [OF dec]) simp_all
      have k: "dir_kids dirent (length dirs - 1) (unat e) (unat e_end)
               = unat e # dir_kids dirent (length dirs - 1) (unat (e + 1)) (unat e_end)"
        using kid by (simp add: dir_kids_def upt)
      have "scan_entries dirent parent e e_end (queue, dirs)
            = scan_entries dirent parent (e + 1) e_end (queue @ [e], ?dirs)"
        using True inb kid sub
        by (subst scan_entries.simps) (simp add: Let_def entry_inode_def set_parent_def)
      then show ?thesis using ih k by simp
    next
      case nokid: False
      have ih: "scan_entries dirent parent (e + 1) e_end (queue, dirs)
         = Inr (queue @ map of_nat (dir_kids dirent (length dirs - 1) (unat (e + 1)) (unat e_end)),
                fold (set_parent dirent parent)
                  (dir_kids dirent (length dirs - 1) (unat (e + 1)) (unat e_end)) dirs)"
        using less.prems by (intro less.hyps [OF dec])
      have k: "dir_kids dirent (length dirs - 1) (unat e) (unat e_end)
               = dir_kids dirent (length dirs - 1) (unat (e + 1)) (unat e_end)"
        using nokid by (simp add: dir_kids_def upt)
      have "scan_entries dirent parent e e_end (queue, dirs)
            = scan_entries dirent parent (e + 1) e_end (queue, dirs)"
        using True inb nokid sub
        by (subst scan_entries.simps) (simp add: Let_def entry_inode_def)
      then show ?thesis using ih k by simp
    qed
  qed
qed

lemma valid_sizes:
  assumes "valid_directory_table ds dirent"
  shows "2 \<le> length ds" and "length ds \<le> 2 ^ 32" and "1 \<le> length dirent"
    and "length dirent < 2 ^ 32"
    and "entry_inode dirent 0 = 0" and "dir_parent ds 0 = 0" and "dir_parent ds (length ds - 1) = 0"
    and "dir_first ds 0 = 1" and "dir_first ds (length ds - 1) = length dirent"
  using assms by (simp_all add: valid_directory_table_def Let_def)

lemma valid_step:
  assumes "valid_directory_table ds dirent" and "d < length ds - 1"
  shows "dir_first ds d \<le> dir_first ds (Suc d)"
  using assms by (simp add: valid_directory_table_def Let_def)

lemma valid_mono:
  assumes "valid_directory_table ds dirent" and "a \<le> b" and "b \<le> length ds - 1"
  shows "dir_first ds a \<le> dir_first ds b"
  using assms(2,3)
proof (induction b)
  case 0
  then show ?case by simp
next
  case (Suc b)
  show ?case
  proof (cases "a = Suc b")
    case True
    then show ?thesis by simp
  next
    case False
    then have "dir_first ds a \<le> dir_first ds b" using Suc by simp
    moreover have "dir_first ds b \<le> dir_first ds (Suc b)"
      using Suc.prems by (intro valid_step [OF assms(1)]) simp
    ultimately show ?thesis by simp
  qed
qed

lemma valid_child:
  assumes "valid_directory_table ds dirent" and "d < length ds - 1"
    and "dir_first ds d \<le> e" and "e < dir_first ds (Suc d)"
    and "entry_inode dirent e < length ds - 1"
  shows "d < entry_inode dirent e"
    and "dir_parent ds (entry_inode dirent e) < length dirent"
    and "entry_inode dirent (dir_parent ds (entry_inode dirent e)) = d"
proof -
  have "\<forall>d\<in>{0..<length ds - 1}. \<forall>e\<in>{dir_first ds d..<dir_first ds (Suc d)}.
             entry_inode dirent e < length ds - 1 \<longrightarrow>
               d < entry_inode dirent e \<and>
               dir_parent ds (entry_inode dirent e) < length dirent \<and>
               entry_inode dirent (dir_parent ds (entry_inode dirent e)) = d"
    using assms(1) by (simp add: valid_directory_table_def Let_def)
  then have "d < entry_inode dirent e \<and>
               dir_parent ds (entry_inode dirent e) < length dirent \<and>
               entry_inode dirent (dir_parent ds (entry_inode dirent e)) = d"
    using assms(2-5) by simp
  then show "d < entry_inode dirent e"
    and "dir_parent ds (entry_inode dirent e) < length dirent"
    and "entry_inode dirent (dir_parent ds (entry_inode dirent e)) = d"
    by simp_all
qed

lemma valid_unique:
  assumes "valid_directory_table ds dirent" and "e < length dirent" and "e' < length dirent"
    and "entry_inode dirent e < length ds - 1" and "entry_inode dirent e = entry_inode dirent e'"
  shows "e = e'"
proof -
  have "\<forall>e\<in>{0..<length dirent}. \<forall>e'\<in>{0..<length dirent}.
             entry_inode dirent e < length ds - 1 \<longrightarrow>
             entry_inode dirent e = entry_inode dirent e' \<longrightarrow> e = e'"
    using assms(1) by (simp add: valid_directory_table_def Let_def)
  then show ?thesis using assms(2-5) by simp
qed

lemma valid_covered:
  assumes "valid_directory_table ds dirent" and "0 < c" and "c < length ds - 1"
  shows "\<exists>d e. d < c \<and> dir_first ds d \<le> e \<and> e < dir_first ds (Suc d) \<and> entry_inode dirent e = c"
proof -
  have "\<forall>c\<in>{1..<length ds - 1}. \<exists>d\<in>{0..<c}. \<exists>e\<in>{dir_first ds d..<dir_first ds (Suc d)}.
             entry_inode dirent e = c"
    using assms(1) by (simp add: valid_directory_table_def Let_def)
  then have "\<exists>d\<in>{0..<c}. \<exists>e\<in>{dir_first ds d..<dir_first ds (Suc d)}. entry_inode dirent e = c"
    using assms(2,3) by simp
  then obtain d e where "d \<in> {0..<c}" and "e \<in> {dir_first ds d..<dir_first ds (Suc d)}"
    and "entry_inode dirent e = c" by blast
  then have "d < c \<and> dir_first ds d \<le> e \<and> e < dir_first ds (Suc d) \<and> entry_inode dirent e = c"
    by simp
  then show ?thesis by blast
qed

text \<open>The parent entry of a directory other than the root is the entry of a directory
  numbered before it.\<close>

lemma valid_parent:
  assumes "valid_directory_table ds dirent" and "0 < c" and "c < length ds - 1"
  shows "dir_parent ds c < length dirent"
    and "entry_inode dirent (dir_parent ds c) < c"
    and "\<exists>e. dir_first ds (entry_inode dirent (dir_parent ds c)) \<le> e \<and>
             e < dir_first ds (Suc (entry_inode dirent (dir_parent ds c))) \<and>
             entry_inode dirent e = c"
proof -
  obtain d e where d: "d < c" and e1: "dir_first ds d \<le> e" and e2: "e < dir_first ds (Suc d)"
    and ie: "entry_inode dirent e = c"
    using valid_covered [OF assms] by blast
  have dn: "d < length ds - 1" using d assms(3) by simp
  have en: "entry_inode dirent e < length ds - 1" using ie assms(3) by simp
  show "dir_parent ds c < length dirent"
    using valid_child(2) [OF assms(1) dn e1 e2 en] ie by simp
  have pd: "entry_inode dirent (dir_parent ds c) = d"
    using valid_child(3) [OF assms(1) dn e1 e2 en] ie by simp
  then show "entry_inode dirent (dir_parent ds c) < c" using d by simp
  show "\<exists>e. dir_first ds (entry_inode dirent (dir_parent ds c)) \<le> e \<and>
             e < dir_first ds (Suc (entry_inode dirent (dir_parent ds c))) \<and>
             entry_inode dirent e = c"
    using pd e1 e2 ie by blast
qed

lemma directory_eqI:
  fixes a b :: directory
  assumes "first_entry a = first_entry b" and "parent_entry a = parent_entry b"
  shows "a = b"
  using assms by (cases a, cases b) simp

lemma unpack_done:
  assumes v: "valid_directory_table ds dirent" and inv: "unpack_inv ds dirent [] dirs"
  shows "dirs = ds"
proof -
  define n where "n = length ds - 1"
  have len: "length dirs = length ds"
    and fe: "\<forall>j<length ds. first_entry (dirs ! j) = first_entry (ds ! j)"
    and p0: "parent_entry (dirs ! 0) = parent_entry (ds ! 0)"
    and pn: "parent_entry (dirs ! n) = parent_entry (ds ! n)"
    and pend: "\<forall>c. 0 < c \<and> c < n \<longrightarrow> parent_entry (dirs ! c) = parent_entry (ds ! c)"
    using inv by (simp_all add: unpack_inv_def Let_def n_def)
  have good: "c < n \<Longrightarrow> parent_entry (dirs ! c) = parent_entry (ds ! c)" for c
    using p0 pend by (cases "c = 0") simp_all
  have ln: "length ds = Suc n" using valid_sizes(1) [OF v] by (simp add: n_def)
  show ?thesis
  proof (rule nth_equalityI)
    show "length dirs = length ds" by (rule len)
  next
    fix j assume "j < length dirs"
    then have j: "j < length ds" using len by simp
    then have "j < n \<or> j = n" using ln by arith
    then have "parent_entry (dirs ! j) = parent_entry (ds ! j)" using good pn by blast
    then show "dirs ! j = ds ! j" using fe j by (intro directory_eqI) simp_all
  qed
qed

text \<open>Walking up from a directory stays below it and reaches the root.\<close>

lemma parent_dir_less:
  assumes "valid_directory_table ds dirent" and "0 < c" and "c < length ds - 1"
  shows "parent_dir ds dirent c < c"
  unfolding parent_dir_def by (rule valid_parent(2) [OF assms])

lemma parent_dir_funpow_le:
  assumes v: "valid_directory_table ds dirent" and "c < length ds - 1"
  shows "(parent_dir ds dirent ^^ j) c \<le> c"
proof (induction j)
  case 0
  then show ?case by simp
next
  case (Suc j)
  let ?x = "(parent_dir ds dirent ^^ j) c"
  have "parent_dir ds dirent ?x \<le> ?x"
  proof (cases "?x = 0")
    case True
    then show ?thesis
      using valid_sizes(5,6) [OF v] by (simp add: parent_dir_def)
  next
    case False
    then have "parent_dir ds dirent ?x < ?x"
      using Suc assms(2) by (intro parent_dir_less [OF v]) simp_all
    then show ?thesis by simp
  qed
  then show ?case using Suc by simp
qed

lemma reaches_root:
  assumes v: "valid_directory_table ds dirent" and "0 < c" and "c < length ds - 1"
  shows "\<exists>k. (parent_dir ds dirent ^^ Suc k) c = 0 \<and> (\<forall>j\<le>k. 0 < (parent_dir ds dirent ^^ j) c)"
  using assms(2,3)
proof (induction c rule: less_induct)
  case (less c)
  let ?p = "parent_dir ds dirent c"
  have pc: "?p < c" using less.prems by (intro parent_dir_less [OF v])
  show ?case
  proof (cases "?p = 0")
    case True
    then have "(parent_dir ds dirent ^^ Suc 0) c = 0 \<and> (\<forall>j\<le>0. 0 < (parent_dir ds dirent ^^ j) c)"
      using less.prems by simp
    then show ?thesis by blast
  next
    case False
    then obtain k where k1: "(parent_dir ds dirent ^^ Suc k) ?p = 0"
      and k2: "\<forall>j\<le>k. 0 < (parent_dir ds dirent ^^ j) ?p"
      using less.IH [OF pc] pc less.prems by force
    have "(parent_dir ds dirent ^^ Suc (Suc k)) c = 0"
      using k1 by (simp only: funpow_Suc_right o_apply)
    moreover have "\<forall>j\<le>Suc k. 0 < (parent_dir ds dirent ^^ j) c"
    proof (intro allI impI)
      fix j assume j: "j \<le> Suc k"
      show "0 < (parent_dir ds dirent ^^ j) c"
      proof (cases j)
        case 0
        then show ?thesis using less.prems by simp
      next
        case (Suc j')
        then have "0 < (parent_dir ds dirent ^^ j') ?p" using k2 j by simp
        then show ?thesis using Suc by (simp only: funpow_Suc_right o_apply)
      qed
    qed
    ultimately show ?thesis by blast
  qed
qed

lemma sum_list_le_const:
  assumes "\<forall>x\<in>set xs. f x \<le> (b::nat)"
  shows "sum_list (map f xs) \<le> length xs * b"
  using assms by (induction xs) auto

lemma unpack_step:
  assumes v: "valid_directory_table ds dirent" and inv: "unpack_inv ds dirent (q # rest) dirs"
  shows "\<exists>queue' dirs'.
           unpack_loop dirent (q # rest) dirs = unpack_loop dirent queue' dirs' \<and>
           unpack_inv ds dirent queue' dirs' \<and>
           queue_weight dirent (length ds - 1) queue' < queue_weight dirent (length ds - 1) (q # rest)"
proof -
  define n where "n = length ds - 1"
  define m where "m = length dirent"
  define d where "d = entry_inode dirent (unat q)"
  define kids where "kids = dir_kids dirent n (dir_first ds d) (dir_first ds (Suc d))"
  define queue' where "queue' = rest @ map of_nat kids"
  define dirs' where "dirs' = fold (set_parent dirent q) kids dirs"
  have len: "length dirs = length ds"
    and fe: "\<forall>j<length ds. first_entry (dirs ! j) = first_entry (ds ! j)"
    and qs: "\<forall>q'\<in>set (q # rest). unat q' < m \<and> entry_inode dirent (unat q') < n"
    and p0: "parent_entry (dirs ! 0) = parent_entry (ds ! 0)"
    and pn: "parent_entry (dirs ! n) = parent_entry (ds ! n)"
    and pend: "\<forall>c. 0 < c \<and> c < n \<longrightarrow>
            parent_entry (dirs ! c) = parent_entry (ds ! c) \<or>
            (\<exists>q'\<in>set (q # rest). \<exists>k.
               (parent_dir ds dirent ^^ Suc k) c = entry_inode dirent (unat q') \<and>
               (\<forall>j\<le>k. 0 < (parent_dir ds dirent ^^ j) c))"
    using inv by (simp_all add: unpack_inv_def Let_def n_def m_def)
  have qm: "unat q < m" and dn: "d < n" using qs by (simp_all add: d_def)
  have ln: "length ds = Suc n" using valid_sizes(1) [OF v] by (simp add: n_def)
  have n32: "Suc n \<le> 2 ^ 32" using valid_sizes(2) [OF v] ln by simp
  have m32: "m < 2 ^ 32" using valid_sizes(4) [OF v] by (simp add: m_def)
  define p_ino where "p_ino = inode_num (dirent ! unat q)"
  have up: "unat p_ino = d" by (simp add: p_ino_def d_def entry_inode_def)
  have "unat p_ino + 1 < 2 ^ 32" using up dn n32 by simp
  then have us: "unat (p_ino + 1) = Suc d" using up by (simp add: unat_suc_u32)
  have beg: "unat (first_entry (dirs ! d)) = dir_first ds d"
    using fe dn ln by (simp add: dir_first_def)
  have e_end: "unat (first_entry (dirs ! Suc d)) = dir_first ds (Suc d)"
    using fe dn ln by (simp add: dir_first_def)
  have "dir_first ds (Suc d) \<le> dir_first ds (length ds - 1)"
    using dn by (intro valid_mono [OF v]) (simp_all add: n_def)
  then have bound: "dir_first ds (Suc d) \<le> m"
    using valid_sizes(9) [OF v] by (simp add: m_def)
  have scan: "scan_entries dirent q (first_entry (dirs ! d)) (first_entry (dirs ! Suc d)) (rest, dirs)
              = Inr (queue', dirs')"
  proof -
    have a: "unat (first_entry (dirs ! Suc d)) \<le> length dirent"
      using bound e_end by (simp add: m_def)
    have b: "1 \<le> length dirs" using len ln by simp
    have c: "length dirs < 2 ^ 64" using len ln n32 by simp
    have "length dirs - 1 = n" using len ln by simp
    then show ?thesis
      using scan_entries_eq [OF a b c, of q "first_entry (dirs ! d)" rest]
      by (simp add: beg e_end kids_def queue'_def dirs'_def)
  qed
  have loop: "unpack_loop dirent (q # rest) dirs = unpack_loop dirent queue' dirs'"
    using qm dn len ln scan up us
    by (subst unpack_loop.simps) (simp add: Let_def m_def p_ino_def [symmetric])
  have kid: "dir_first ds d \<le> e \<and> e < dir_first ds (Suc d) \<and> entry_inode dirent e < n"
    if "e \<in> set kids" for e
    using that by (simp add: kids_def dir_kids_def)
  have kid_m: "e < m" if "e \<in> set kids" for e using kid [OF that] bound by simp
  have kid_u: "unat (of_nat e :: u32) = e" if "e \<in> set kids" for e
    using kid_m [OF that] m32 by (simp add: unat_of_nat)
  have kid_gt: "d < entry_inode dirent e" if "e \<in> set kids" for e
    using kid [OF that] dn by (intro valid_child(1) [OF v]) (simp_all add: n_def)
  have kid_par: "parent_entry (ds ! entry_inode dirent e) = q" if "e \<in> set kids" for e
  proof -
    have k: "dir_first ds d \<le> e" "e < dir_first ds (Suc d)" "entry_inode dirent e < length ds - 1"
      using kid [OF that] by (simp_all add: n_def)
    have dl: "d < length ds - 1" using dn by (simp add: n_def)
    have a: "dir_parent ds (entry_inode dirent e) < length dirent"
      by (rule valid_child(2) [OF v dl k])
    have b: "entry_inode dirent (dir_parent ds (entry_inode dirent e)) = d"
      by (rule valid_child(3) [OF v dl k])
    have "unat q = dir_parent ds (entry_inode dirent e)"
    proof (rule valid_unique [OF v])
      show "unat q < length dirent" using qm by (simp add: m_def)
      show "dir_parent ds (entry_inode dirent e) < length dirent" by (rule a)
      show "entry_inode dirent (unat q) < length ds - 1" using dn by (simp add: n_def d_def)
      show "entry_inode dirent (unat q) = entry_inode dirent (dir_parent ds (entry_inode dirent e))"
        unfolding b by (simp add: d_def)
    qed
    then show ?thesis by (simp add: dir_parent_def word_unat_eq_iff)
  qed
  have newp: "parent_entry (dirs' ! c)
              = (if c \<in> entry_inode dirent ` set kids then q else parent_entry (dirs ! c))"
    if "c \<le> n" for c
    using that len ln unfolding dirs'_def by (intro parent_entry_fold_set_parent) simp
  have g1: "parent_entry (dirs' ! c) = parent_entry (ds ! c)"
    if cin: "c \<in> entry_inode dirent ` set kids" for c
  proof -
    obtain e where e: "e \<in> set kids" and c: "c = entry_inode dirent e" using cin by blast
    have "c \<le> n" using kid [OF e] c by simp
    then show ?thesis using newp cin kid_par [OF e] c by simp
  qed
  have g2: "parent_entry (dirs' ! c) = parent_entry (dirs ! c)"
    if "c \<le> n" and "c \<notin> entry_inode dirent ` set kids" for c
    using newp that by simp
  have i1: "length dirs' = length ds" by (simp add: dirs'_def len)
  have i2: "\<forall>j<length ds. first_entry (dirs' ! j) = first_entry (ds ! j)"
    using fe len by (simp add: dirs'_def first_entry_fold_set_parent)
  have i3: "\<forall>q'\<in>set queue'. unat q' < m \<and> entry_inode dirent (unat q') < n"
  proof
    fix q' assume "q' \<in> set queue'"
    then consider "q' \<in> set rest" | e where "e \<in> set kids" and "q' = of_nat e"
      by (auto simp: queue'_def)
    then show "unat q' < m \<and> entry_inode dirent (unat q') < n"
    proof cases
      case 1
      then show ?thesis using qs by simp
    next
      case 2
      then show ?thesis using kid_u [OF 2(1)] kid_m [OF 2(1)] kid [OF 2(1)] by simp
    qed
  qed
  have "0 \<notin> entry_inode dirent ` set kids" using kid_gt by force
  then have i4: "parent_entry (dirs' ! 0) = parent_entry (ds ! 0)" using g2 [of 0] p0 by simp
  have "n \<notin> entry_inode dirent ` set kids" using kid by force
  then have i5: "parent_entry (dirs' ! n) = parent_entry (ds ! n)" using g2 [of n] pn by simp
  have child_set: "parent_entry (dirs' ! c) = parent_entry (ds ! c)"
    if c0: "0 < c" and cn: "c < n" and pd: "parent_dir ds dirent c = d" for c
  proof -
    obtain e0 where "dir_first ds (parent_dir ds dirent c) \<le> e0"
      and "e0 < dir_first ds (Suc (parent_dir ds dirent c))" and e3: "entry_inode dirent e0 = c"
      using valid_parent(3) [OF v c0] cn unfolding parent_dir_def n_def by blast
    then have "e0 \<in> set kids" using pd cn by (simp add: kids_def dir_kids_def)
    then have "c \<in> entry_inode dirent ` set kids" using e3 by force
    then show ?thesis by (rule g1)
  qed
  have child_queued: "\<exists>q'\<in>set queue'. entry_inode dirent (unat q') = c"
    if c0: "0 < c" and cn: "c < n" and pd: "parent_dir ds dirent c = d" for c
  proof -
    obtain e0 where "dir_first ds (parent_dir ds dirent c) \<le> e0"
      and "e0 < dir_first ds (Suc (parent_dir ds dirent c))" and e3: "entry_inode dirent e0 = c"
      using valid_parent(3) [OF v c0] cn unfolding parent_dir_def n_def by blast
    then have k: "e0 \<in> set kids" using pd cn by (simp add: kids_def dir_kids_def)
    then have "(of_nat e0 :: u32) \<in> set queue'" by (simp add: queue'_def)
    moreover have "entry_inode dirent (unat (of_nat e0 :: u32)) = c"
      using kid_u [OF k] e3 by simp
    ultimately show ?thesis by blast
  qed
  have i6: "\<forall>c. 0 < c \<and> c < n \<longrightarrow>
            parent_entry (dirs' ! c) = parent_entry (ds ! c) \<or>
            (\<exists>q'\<in>set queue'. \<exists>k.
               (parent_dir ds dirent ^^ Suc k) c = entry_inode dirent (unat q') \<and>
               (\<forall>j\<le>k. 0 < (parent_dir ds dirent ^^ j) c))"
  proof (intro allI impI)
    fix c assume cr: "0 < c \<and> c < n"
    have keep: "parent_entry (dirs' ! c) = parent_entry (ds ! c)"
      if "parent_entry (dirs ! c) = parent_entry (ds ! c)"
      using that g1 [of c] g2 [of c] cr by (cases "c \<in> entry_inode dirent ` set kids") simp_all
    consider (recovered) "parent_entry (dirs ! c) = parent_entry (ds ! c)"
      | (head) k where "(parent_dir ds dirent ^^ Suc k) c = d"
                 and "\<forall>j\<le>k. 0 < (parent_dir ds dirent ^^ j) c"
      | (tail) q' k where "q' \<in> set rest"
                 and "(parent_dir ds dirent ^^ Suc k) c = entry_inode dirent (unat q')"
                 and "\<forall>j\<le>k. 0 < (parent_dir ds dirent ^^ j) c"
      using pend cr unfolding d_def by auto
    then show "parent_entry (dirs' ! c) = parent_entry (ds ! c) \<or>
            (\<exists>q'\<in>set queue'. \<exists>k.
               (parent_dir ds dirent ^^ Suc k) c = entry_inode dirent (unat q') \<and>
               (\<forall>j\<le>k. 0 < (parent_dir ds dirent ^^ j) c))"
    proof cases
      case recovered
      then show ?thesis using keep by simp
    next
      case (tail q' k)
      have "q' \<in> set queue'" using tail(1) by (simp add: queue'_def)
      then show ?thesis using tail(2,3) by blast
    next
      case (head k)
      show ?thesis
      proof (cases k)
        case 0
        then have "parent_dir ds dirent c = d" using head(1) by simp
        then show ?thesis using child_set cr by simp
      next
        case (Suc k')
        define c1 where "c1 = (parent_dir ds dirent ^^ k) c"
        have c10: "0 < c1" using head(2) by (simp add: c1_def)
        have "c1 \<le> c" unfolding c1_def
          using cr by (intro parent_dir_funpow_le [OF v]) (simp add: n_def)
        then have c1n: "c1 < n" using cr by simp
        have "parent_dir ds dirent c1 = d" using head(1) by (simp add: c1_def)
        then obtain q' where q': "q' \<in> set queue'" and iq: "entry_inode dirent (unat q') = c1"
          using child_queued [OF c10 c1n] by blast
        have "(parent_dir ds dirent ^^ Suc k') c = entry_inode dirent (unat q')"
          using iq Suc by (simp add: c1_def)
        moreover have "\<forall>j\<le>k'. 0 < (parent_dir ds dirent ^^ j) c"
          using head(2) Suc by simp
        ultimately show ?thesis using q' by blast
      qed
    qed
  qed
  have inv': "unpack_inv ds dirent queue' dirs'"
    unfolding unpack_inv_def Let_def
    using i1 i2 i3 i4 i5 i6 by (simp add: n_def m_def)
  define W where "W = m + 1"
  define wq where "wq = (\<lambda>x::u32. W ^ (n - entry_inode dirent (unat x)))"
  have w1: "queue_weight dirent n (q # rest) = W ^ (n - d) + queue_weight dirent n rest"
    by (simp add: queue_weight_def W_def m_def d_def)
  have w2: "queue_weight dirent n queue'
            = queue_weight dirent n rest + sum_list (map wq (map of_nat kids))"
    by (simp add: queue_weight_def queue'_def wq_def W_def m_def)
  have "\<forall>x\<in>set (map of_nat kids). wq x \<le> W ^ (n - Suc d)"
  proof
    fix x :: u32 assume "x \<in> set (map of_nat kids)"
    then obtain e where e: "e \<in> set kids" and x: "x = of_nat e" by auto
    have "n - entry_inode dirent e \<le> n - Suc d" using kid_gt [OF e] by simp
    then have "W ^ (n - entry_inode dirent e) \<le> W ^ (n - Suc d)"
      by (intro power_increasing) (simp_all add: W_def)
    then show "wq x \<le> W ^ (n - Suc d)" using kid_u [OF e] x by (simp add: wq_def)
  qed
  then have "sum_list (map wq (map of_nat kids)) \<le> length (map (of_nat :: nat \<Rightarrow> u32) kids) * W ^ (n - Suc d)"
    by (rule sum_list_le_const)
  moreover have "length kids \<le> m"
  proof -
    have "length kids \<le> length [dir_first ds d..<dir_first ds (Suc d)]"
      unfolding kids_def dir_kids_def by (rule length_filter_le)
    then show ?thesis using bound by simp
  qed
  ultimately have "sum_list (map wq (map of_nat kids)) \<le> m * W ^ (n - Suc d)"
    by (metis (no_types, lifting) le_trans length_map mult_le_mono1)
  also have "\<dots> < W * W ^ (n - Suc d)" by (simp add: W_def)
  also have "\<dots> = W ^ (n - d)" using dn by (simp add: Suc_diff_Suc flip: power_Suc)
  finally have "queue_weight dirent n queue' < queue_weight dirent n (q # rest)"
    using w1 w2 by simp
  then show ?thesis using loop inv' unfolding n_def by blast
qed


lemma unpack_loop_correct:
  assumes v: "valid_directory_table ds dirent" and inv: "unpack_inv ds dirent queue dirs"
  shows "unpack_loop dirent queue dirs = Some (Inr ds)"
  using inv
proof (induction "queue_weight dirent (length ds - 1) queue" arbitrary: queue dirs rule: less_induct)
  case less
  show ?case
  proof (cases queue)
    case Nil
    then have "dirs = ds" using unpack_done [OF v] less.prems by simp
    then show ?thesis using Nil by (subst unpack_loop.simps) simp
  next
    case (Cons q rest)
    then obtain queue' dirs' where
      l: "unpack_loop dirent queue dirs = unpack_loop dirent queue' dirs'"
      and i: "unpack_inv ds dirent queue' dirs'"
      and w: "queue_weight dirent (length ds - 1) queue' < queue_weight dirent (length ds - 1) queue"
      using unpack_step [OF v, of q rest dirs] less.prems by auto
    show ?thesis using less.hyps [OF w i] l by simp
  qed
qed

lemma unpack_inv_initial:
  assumes v: "valid_directory_table ds dirent"
  shows "unpack_inv ds dirent [0] (map (\<lambda>d. \<lparr>parent_entry = 0, first_entry = first_entry d\<rparr>) ds)"
proof -
  define n where "n = length ds - 1"
  have ln: "length ds = Suc n" using valid_sizes(1) [OF v] by (simp add: n_def)
  have n1: "1 \<le> n" using valid_sizes(1) [OF v] by (simp add: n_def)
  have p0: "parent_entry (ds ! 0) = 0"
    using valid_sizes(6) [OF v] by (simp add: dir_parent_def unat_eq_0)
  have pn: "parent_entry (ds ! n) = 0"
    using valid_sizes(7) [OF v] by (simp add: dir_parent_def unat_eq_0 n_def)
  have root: "\<forall>c. 0 < c \<and> c < n \<longrightarrow>
            (\<exists>k. (parent_dir ds dirent ^^ Suc k) c = entry_inode dirent (unat (0::u32)) \<and>
               (\<forall>j\<le>k. 0 < (parent_dir ds dirent ^^ j) c))"
    using reaches_root [OF v] valid_sizes(5) [OF v] by (simp add: n_def)
  let ?dirs = "map (\<lambda>d. \<lparr>parent_entry = 0, first_entry = first_entry d\<rparr>) ds"
  have nth: "\<And>j. j < length ds \<Longrightarrow> ?dirs ! j = \<lparr>parent_entry = 0, first_entry = first_entry (ds ! j)\<rparr>"
    by simp
  have a1: "length ?dirs = length ds" by simp
  have a2: "\<forall>j<length ds. first_entry (?dirs ! j) = first_entry (ds ! j)" by simp
  have a3: "\<forall>q\<in>set [0::u32]. unat q < length dirent \<and> entry_inode dirent (unat q) < n"
    using valid_sizes(3,5) [OF v] n1 by (cases dirent) simp_all
  have a4: "parent_entry (?dirs ! 0) = parent_entry (ds ! 0)" using nth [of 0] ln p0 by simp
  have a5: "parent_entry (?dirs ! n) = parent_entry (ds ! n)" using nth [of n] ln pn by simp
  have a6: "\<forall>c. 0 < c \<and> c < n \<longrightarrow>
            parent_entry (?dirs ! c) = parent_entry (ds ! c) \<or>
            (\<exists>q\<in>set [0::u32]. \<exists>k.
               (parent_dir ds dirent ^^ Suc k) c = entry_inode dirent (unat q) \<and>
               (\<forall>j\<le>k. 0 < (parent_dir ds dirent ^^ j) c))"
    using root by simp
  show ?thesis
    unfolding unpack_inv_def Let_def n_def [symmetric]
    by (intro conjI a1 a2 a3 a4 a5 a6)
qed

subsection \<open>The example table\<close>

lemma example_first:
  assumes "d < 4"
  shows "dir_first example_directories d = [1, 8, 10, 10] ! d"
proof -
  have "d = 0 \<or> d = 1 \<or> d = 2 \<or> d = 3" using assms by arith
  then show ?thesis by (elim disjE) (simp_all add: dir_first_def example_directories_def)
qed

lemma example_parent:
  assumes "d < 4"
  shows "dir_parent example_directories d = [0, 0, 1, 0] ! d"
proof -
  have "d = 0 \<or> d = 1 \<or> d = 2 \<or> d = 3" using assms by arith
  then show ?thesis by (elim disjE) (simp_all add: dir_parent_def example_directories_def)
qed

lemma example_entry_inode:
  assumes "e < 10"
  shows "entry_inode example_dir_entries e = [0, 1, 8, 3, 9, 4, 6, 7, 2, 5] ! e"
proof -
  have "e = 0 \<or> e = 1 \<or> e = 2 \<or> e = 3 \<or> e = 4 \<or> e = 5 \<or> e = 6 \<or> e = 7 \<or> e = 8 \<or> e = 9"
    using assms by arith
  then show ?thesis by (elim disjE) (simp_all add: entry_inode_def example_dir_entries_def)
qed

lemma example_valid: "valid_directory_table example_directories example_dir_entries"
proof -
  have sizes: "2 \<le> length example_directories" "length example_directories \<le> 2 ^ 32"
    "1 \<le> length example_dir_entries" "length example_dir_entries < 2 ^ 32"
    "length example_directories - 1 = 3" "length example_dir_entries = 10"
    by (simp_all add: example_directories_def example_dir_entries_def)
  have rest: "entry_inode example_dir_entries 0 = 0 \<and> dir_parent example_directories 0 = 0 \<and>
         dir_parent example_directories 3 = 0 \<and>
         dir_first example_directories 0 = 1 \<and> dir_first example_directories 3 = 10 \<and>
         (\<forall>d\<in>{0..<3}. dir_first example_directories d \<le> dir_first example_directories (Suc d)) \<and>
         (\<forall>d\<in>{0..<3}. \<forall>e\<in>{dir_first example_directories d..<dir_first example_directories (Suc d)}.
             entry_inode example_dir_entries e < 3 \<longrightarrow>
               d < entry_inode example_dir_entries e \<and>
               dir_parent example_directories (entry_inode example_dir_entries e) < 10 \<and>
               entry_inode example_dir_entries (dir_parent example_directories (entry_inode example_dir_entries e)) = d) \<and>
         (\<forall>e\<in>{0..<10}. \<forall>e'\<in>{0..<10}.
             entry_inode example_dir_entries e < 3 \<longrightarrow>
             entry_inode example_dir_entries e = entry_inode example_dir_entries e' \<longrightarrow> e = e') \<and>
         (\<forall>c\<in>{1..<3}. \<exists>d\<in>{0..<c}. \<exists>e\<in>{dir_first example_directories d..<dir_first example_directories (Suc d)}.
             entry_inode example_dir_entries e = c)"
    by (simp add: example_first example_parent example_entry_inode atLeastLessThanSuc eval_nat_numeral)
  show ?thesis
    unfolding valid_directory_table_def Let_def sizes(5,6)
    using sizes(1-4) rest by (intro conjI) simp_all
qed

subsection \<open>The round trip\<close>

text \<open>
  Claim C1.  Let \<open>ds\<close> and \<open>dirent\<close> be the directory table and the entries the builder saves
  for a tree (\<open>valid_directory_table\<close>), and let the image hold the table as the builder
  packs it under \<open>pack_directories\<close>: every \<open>first_entry\<close> replaced by its difference to the
  one before, every \<open>parent_entry\<close> zeroed.  Then \<open>unpack_directories\<close> returns, and what it
  returns is \<open>ds\<close>: the prefix sums give back every \<open>first_entry\<close>, the traversal from the
  root's entry gives back every \<open>parent_entry\<close>.
\<close>

theorem unpack_pack_directories:
  assumes "valid_directory_table ds dirent"
    and "directories meta = pack_directories True ds"
    and "dir_entries meta = Some dirent"
    and "options meta = Some opts" and "packed_directories opts"
  shows "unpack_directories meta = Some (Inr ds)"
proof -
  have ne: "ds \<noteq> []" using valid_sizes(1) [OF assms(1)] by (cases ds) simp_all
  then have ne': "pack_directories_loop 0 ds \<noteq> []"
    using length_pack_directories_loop [of 0 ds] by (cases "pack_directories_loop 0 ds") simp_all
  have "unpack_directories meta = unpack_loop dirent [0] (delta_decode (pack_directories_loop 0 ds))"
    using assms(2-5) ne' by (simp add: unpack_directories_def pack_directories_def)
  also have "\<dots> = unpack_loop dirent [0]
                     (map (\<lambda>d. \<lparr>parent_entry = 0, first_entry = first_entry d\<rparr>) ds)"
    by (simp only: delta_decode_pack [OF ne])
  also have "\<dots> = Some (Inr ds)"
    using assms(1) unpack_inv_initial [OF assms(1)] by (rule unpack_loop_correct)
  finally show ?thesis .
qed

theorem unpack_pack_directories_witness:
  "valid_directory_table example_directories example_dir_entries \<and>
   unpack_directories example_image_packed = Some (Inr example_directories)"
proof -
  have a: "directories example_image_packed = pack_directories True example_directories"
    by (simp add: example_image_packed_def)
  have b: "dir_entries example_image_packed = Some example_dir_entries"
    by (simp add: example_image_packed_def example_image_def)
  have c: "options example_image_packed
           = Some \<lparr>packed_chunk_table = True, packed_directories = True,
                    packed_shared_files_table = True\<rparr>"
    by (simp add: example_image_packed_def)
  have d: "packed_directories \<lparr>packed_chunk_table = True, packed_directories = True,
                               packed_shared_files_table = True\<rparr>"
    by simp
  show ?thesis
    by (intro conjI example_valid unpack_pack_directories [OF example_valid a b c d])
qed

section \<open>Paths of entries\<close>

lemma join_path_snoc: "ns \<noteq> [] \<Longrightarrow> join_path (ns @ [nm]) = join_path ns @ ''/'' @ nm"
  by (induction ns rule: join_path.induct) simp_all

lemma join_path_ends:
  assumes "ns \<noteq> []" and "\<forall>nm\<in>set ns. nm \<noteq> []"
  shows "join_path ns \<noteq> [] \<and> hd (join_path ns) = hd (hd ns) \<and> last (join_path ns) = last (last ns)"
  using assms by (induction ns rule: join_path.induct) auto

lemma g_directory_valid:
  assumes "g_directories g = ds" and "unat ino < length ds"
  shows "parent_dir_entry g ino = Inr (parent_entry (ds ! unat ino))"
  using assms by (simp add: parent_dir_entry_def g_directory_def g_directories_def)

lemma from_dir_entry_index_dir:
  assumes "dir_entries (g_meta g) = Some dirent" and "g_directories g = ds"
    and "length (directories (g_meta g)) = length ds"
    and "unat p < length dirent" and "entry_inode dirent (unat p) < length ds - 1"
  shows "from_dir_entry_index p g
         = Inr \<lparr>variant = DirEntryView (dirent ! unat p), self_index = p,
                parent_index = parent_entry (ds ! entry_inode dirent (unat p))\<rparr>"
proof -
  have lt: "unat (inode_num (dirent ! unat p)) < length ds"
    using assms(5) by (simp add: entry_inode_def)
  have "parent_dir_entry g (inode_num (dirent ! unat p))
        = Inr (parent_entry (ds ! unat (inode_num (dirent ! unat p))))"
    using assms(2) lt by (rule g_directory_valid)
  then show ?thesis
    using assms(1,3,4) lt by (simp add: from_dir_entry_index_def Let_def entry_inode_def)
qed

subsection \<open>What the tables say of an entry on a path\<close>

lemma lies_in_bounds:
  assumes v: "valid_directory_table ds dirent" and l: "lies_in ds dirent e p"
  shows "0 < e" and "e < length dirent" and "0 < entry_inode dirent e"
proof -
  let ?d = "entry_inode dirent p"
  have d: "?d < length ds - 1" and lo: "dir_first ds ?d \<le> e" and hi: "e < dir_first ds (Suc ?d)"
    using l by (simp_all add: lies_in_def)
  have "dir_first ds 0 \<le> dir_first ds ?d" using v _ _ by (rule valid_mono) (use d in simp_all)
  then show "0 < e" using lo valid_sizes(8) [OF v] by simp
  have "dir_first ds (Suc ?d) \<le> dir_first ds (length ds - 1)"
    using v _ _ by (rule valid_mono) (use d in simp_all)
  then show "e < length dirent" using hi valid_sizes(9) [OF v] by simp
  show "0 < entry_inode dirent e"
  proof (cases "entry_inode dirent e < length ds - 1")
    case True
    then have "?d < entry_inode dirent e" using valid_child(1) [OF v d lo hi] by simp
    then show ?thesis by simp
  next
    case False
    then show ?thesis using valid_sizes(1) [OF v] by simp
  qed
qed

lemma path_names_props:
  assumes v: "valid_directory_table ds dirent" and pn: "path_names ds dirent nms e p ns"
  shows "e < length dirent \<and> p < length dirent \<and> (e = 0 \<longleftrightarrow> ns = []) \<and>
         (entry_inode dirent e = 0 \<longleftrightarrow> e = 0) \<and>
         (e \<noteq> 0 \<longrightarrow> lies_in ds dirent e p) \<and>
         (entry_inode dirent e < length ds - 1 \<longrightarrow> dir_parent ds (entry_inode dirent e) = p)"
  using pn
proof (induction rule: path_names.induct)
  case root
  show ?case using valid_sizes(3,5,6) [OF v] by auto
next
  case (child p pp ns e)
  have pm: "p < length dirent" using child.IH by simp
  have b: "0 < e" "e < length dirent" "0 < entry_inode dirent e"
    using lies_in_bounds [OF v child.hyps(2)] by simp_all
  let ?d = "entry_inode dirent p"
  have d: "?d < length ds - 1" and lo: "dir_first ds ?d \<le> e" and hi: "e < dir_first ds (Suc ?d)"
    using child.hyps(2) by (simp_all add: lies_in_def)
  have par: "dir_parent ds (entry_inode dirent e) = p" if c: "entry_inode dirent e < length ds - 1"
  proof -
    have qm: "dir_parent ds (entry_inode dirent e) < length dirent"
      and qd: "entry_inode dirent (dir_parent ds (entry_inode dirent e)) = ?d"
      using valid_child(2,3) [OF v d lo hi c] by simp_all
    have "p = dir_parent ds (entry_inode dirent e)"
    proof (rule valid_unique [OF v])
      show "p < length dirent" by (rule pm)
      show "dir_parent ds (entry_inode dirent e) < length dirent" by (rule qm)
      show "entry_inode dirent p < length ds - 1" by (rule d)
      show "entry_inode dirent p = entry_inode dirent (dir_parent ds (entry_inode dirent e))"
        using qd by simp
    qed
    then show ?thesis by simp
  qed
  show ?case using b pm par child.hyps(2) by simp
qed

text \<open>The path to an entry is unique: the ranges are disjoint, and so are the entries of
  different directories.\<close>

lemma lies_in_unique:
  assumes v: "valid_directory_table ds dirent"
    and l: "lies_in ds dirent e p" and l': "lies_in ds dirent e p'"
    and pm: "p < length dirent" and pm': "p' < length dirent"
  shows "p = p'"
proof -
  let ?d = "entry_inode dirent p" and ?d' = "entry_inode dirent p'"
  have d: "?d < length ds - 1" and lo: "dir_first ds ?d \<le> e" and hi: "e < dir_first ds (Suc ?d)"
    using l by (simp_all add: lies_in_def)
  have d': "?d' < length ds - 1" and lo': "dir_first ds ?d' \<le> e" and hi': "e < dir_first ds (Suc ?d')"
    using l' by (simp_all add: lies_in_def)
  have "\<not> ?d < ?d'"
  proof
    assume lt: "?d < ?d'"
    have "dir_first ds (Suc ?d) \<le> dir_first ds ?d'"
    proof (rule valid_mono [OF v])
      show "Suc ?d \<le> ?d'" using lt by simp
      show "?d' \<le> length ds - 1" using d' by simp
    qed
    then show False using hi lo' by simp
  qed
  moreover have "\<not> ?d' < ?d"
  proof
    assume lt: "?d' < ?d"
    have "dir_first ds (Suc ?d') \<le> dir_first ds ?d"
    proof (rule valid_mono [OF v])
      show "Suc ?d' \<le> ?d" using lt by simp
      show "?d \<le> length ds - 1" using d by simp
    qed
    then show False using hi' lo by simp
  qed
  ultimately have "?d = ?d'" by simp
  with v pm pm' d show ?thesis by (rule valid_unique)
qed

lemma path_names_unique:
  assumes v: "valid_directory_table ds dirent"
    and a: "path_names ds dirent nms e p ns" and b: "path_names ds dirent nms e p' ns'"
  shows "p = p' \<and> ns = ns'"
  using a b
proof (induction arbitrary: p' ns' rule: path_names.induct)
  case root
  from root show ?case
  proof (cases rule: path_names.cases)
    case root
    then show ?thesis by simp
  next
    case (child pp' ns2)
    then show ?thesis using lies_in_bounds(1) [OF v] by blast
  qed
next
  case (child p pp ns e)
  have e0: "0 < e" using lies_in_bounds(1) [OF v child.hyps(2)] .
  from child.prems show ?case
  proof (cases rule: path_names.cases)
    case root
    then show ?thesis using e0 by simp
  next
    case inner: (child pp2 ns2)
    have pm: "p < length dirent" using path_names_props [OF v child.hyps(1)] by simp
    have pm': "p' < length dirent" using path_names_props [OF v inner(2)] by simp
    have eq: "p = p'" using v child.hyps(2) inner(3) pm pm' by (rule lies_in_unique)
    have "path_names ds dirent nms p pp2 ns2" using inner(2) eq by simp
    then have "pp = pp2 \<and> ns = ns2" by (rule child.IH)
    then show ?thesis using eq inner(1) by simp
  qed
qed

lemma path_names_subset:
  assumes v: "valid_directory_table ds dirent"
    and nm: "\<forall>e<length dirent. unat (name_index (dirent ! e)) < length nms"
    and pn: "path_names ds dirent nms e p ns"
  shows "set ns \<subseteq> set nms"
  using pn
proof (induction rule: path_names.induct)
  case root
  show ?case by simp
next
  case (child p pp ns e)
  have "e < length dirent" using lies_in_bounds(2) [OF v child.hyps(2)] .
  then have "entry_name dirent nms e \<in> set nms" using nm by (simp add: entry_name_def)
  then show ?case using child.IH by simp
qed

subsection \<open>The path of a view\<close>

lemma u32_of_nat_unat:
  assumes "e < length dirent" and "length dirent < 2 ^ 32"
  shows "unat (of_nat e :: u32) = e"
  using assms by (simp add: unat_of_nat)

lemma path_names_view_path:
  assumes v: "valid_directory_table ds dirent"
    and de: "dir_entries (g_meta g) = Some dirent" and gd: "g_directories g = ds"
    and ld: "length (directories (g_meta g)) = length ds"
    and nm: "\<forall>e<length dirent. unat (name_index (dirent ! e)) < length (g_names g)"
    and pn: "path_names ds dirent (g_names g) e p ns"
  shows "view_path g \<lparr>variant = DirEntryView (dirent ! e), self_index = of_nat e,
                       parent_index = of_nat p\<rparr> = Some (Inr (join_path ns))"
  using pn
proof (induction rule: path_names.induct)
  case root
  have "unat (inode_num (dirent ! 0)) = 0" using valid_sizes(5) [OF v] by (simp add: entry_inode_def)
  then have "inode_num (dirent ! 0) = 0" by (simp add: unat_eq_0)
  then show ?case
    unfolding view_path_def
    by (subst append_path_to.simps) (simp add: view_parent_def is_root_def append_name_def)
next
  case (child p pp ns e)
  let ?view = "\<lparr>variant = DirEntryView (dirent ! e), self_index = of_nat e,
                 parent_index = (of_nat p :: u32)\<rparr>"
  let ?pview = "\<lparr>variant = DirEntryView (dirent ! p), self_index = of_nat p,
                  parent_index = (of_nat pp :: u32)\<rparr>"
  have m32: "length dirent < 2 ^ 32" using valid_sizes(4) [OF v] .
  have pp: "p < length dirent \<and> (p = 0 \<longleftrightarrow> ns = []) \<and> (entry_inode dirent p = 0 \<longleftrightarrow> p = 0) \<and>
            (entry_inode dirent p < length ds - 1 \<longrightarrow> dir_parent ds (entry_inode dirent p) = pp)"
    using path_names_props [OF v child.hyps(1)] by simp
  have b: "0 < e" "e < length dirent" "0 < entry_inode dirent e"
    using lies_in_bounds [OF v child.hyps(2)] by simp_all
  have d: "entry_inode dirent p < length ds - 1" using child.hyps(2) by (simp add: lies_in_def)
  have pm: "p < length dirent" using pp by simp
  have up: "unat (of_nat p :: u32) = p" using pm m32 by (rule u32_of_nat_unat)
  have nr: "\<not> is_root ?view"
    using b(3) by (auto simp: is_root_def entry_inode_def)
  have "dir_parent ds (entry_inode dirent p) = pp" using pp d by simp
  then have upe: "unat (parent_entry (ds ! entry_inode dirent p)) = pp" by (simp add: dir_parent_def)
  have pe: "parent_entry (ds ! entry_inode dirent p) = of_nat pp"
    unfolding upe [symmetric] by simp
  have "from_dir_entry_index (of_nat p) g
        = Inr \<lparr>variant = DirEntryView (dirent ! unat (of_nat p :: u32)), self_index = of_nat p,
               parent_index = parent_entry (ds ! entry_inode dirent (unat (of_nat p :: u32)))\<rparr>"
  proof (rule from_dir_entry_index_dir [OF de gd ld])
    show "unat (of_nat p :: u32) < length dirent" using pm up by simp
    show "entry_inode dirent (unat (of_nat p :: u32)) < length ds - 1" using d up by simp
  qed
  then have fp: "from_dir_entry_index (of_nat p) g = Inr ?pview" by (simp add: up pe)
  have par: "view_parent g ?view = Inr (Some ?pview)"
    using nr fp by (simp add: view_parent_def)
  have inr: "unat (name_index (dirent ! e)) < length (g_names g)" using nm b(2) by simp
  then have vn: "view_name g ?view = Inr (entry_name dirent (g_names g) e)"
    by (simp add: view_name_def entry_name_def)
  have rp: "is_root ?pview \<longleftrightarrow> p = 0"
  proof -
    have "is_root ?pview \<longleftrightarrow> unat (inode_num (dirent ! p)) = 0"
      by (simp add: is_root_def unat_eq_0)
    then show ?thesis using pp by (simp add: entry_inode_def)
  qed
  show ?case
  proof (cases "p = 0")
    case True
    then have "ns = []" using pp by simp
    moreover have "append_path_to g ?view [] = append_name g ?view []"
      using par rp True by (subst append_path_to.simps) simp
    ultimately show ?thesis
      using nr vn by (simp add: view_path_def append_name_def)
  next
    case False
    then have ne: "ns \<noteq> []" using pp by simp
    have ih: "append_path_to g ?pview [] = Some (Inr (join_path ns))"
      using child.IH by (simp add: view_path_def)
    have "append_path_to g ?view []
          = Option.bind (append_path_to g ?pview [])
              (\<lambda>r. case r of Inl err \<Rightarrow> Some (Inl err)
                          | Inr s' \<Rightarrow> append_name g ?view (s' @ ''/''))"
      using par rp False by (subst append_path_to.simps) simp
    also have "\<dots> = append_name g ?view (join_path ns @ ''/'')"
      by (simp add: ih)
    also have "\<dots> = Some (Inr (join_path (ns @ [entry_name dirent (g_names g) e])))"
      using nr vn ne by (simp add: append_name_def join_path_snoc)
    finally show ?thesis by (simp add: view_path_def)
  qed
qed

text \<open>
  Every entry of a table is on a path from the root: the ranges of the directories cover
  the entries from 1 on, and every directory has an entry in the range of a directory
  numbered before it.
\<close>

lemma range_of_entry:
  assumes v: "valid_directory_table ds dirent" and e: "0 < e" "e < length dirent"
  shows "\<exists>d<length ds - 1. dir_first ds d \<le> e \<and> e < dir_first ds (Suc d)"
proof -
  have "\<And>k. k \<le> length ds - 1 \<Longrightarrow> e < dir_first ds k \<Longrightarrow>
          \<exists>d<length ds - 1. dir_first ds d \<le> e \<and> e < dir_first ds (Suc d)"
  proof -
    fix k show "k \<le> length ds - 1 \<Longrightarrow> e < dir_first ds k \<Longrightarrow>
          \<exists>d<length ds - 1. dir_first ds d \<le> e \<and> e < dir_first ds (Suc d)"
    proof (induction k)
      case 0
      then show ?case using e(1) valid_sizes(8) [OF v] by simp
    next
      case (Suc k)
      show ?case
      proof (cases "e < dir_first ds k")
        case True
        then show ?thesis using Suc by simp
      next
        case False
        then have "dir_first ds k \<le> e \<and> e < dir_first ds (Suc k)" using Suc.prems(2) by simp
        moreover have "k < length ds - 1" using Suc.prems(1) by simp
        ultimately show ?thesis by blast
      qed
    qed
  qed
  from this [of "length ds - 1"] show ?thesis using e(2) valid_sizes(9) [OF v] by simp
qed

lemma directory_has_path:
  assumes v: "valid_directory_table ds dirent" and c: "c < length ds - 1"
  shows "\<exists>p pp ns. path_names ds dirent nms p pp ns \<and> entry_inode dirent p = c"
  using c
proof (induction c rule: less_induct)
  case (less c)
  show ?case
  proof (cases "c = 0")
    case True
    have "path_names ds dirent nms 0 0 []" by (rule path_names.root)
    then show ?thesis using True valid_sizes(5) [OF v] by blast
  next
    case False
    then obtain d e where dc: "d < c" and lo: "dir_first ds d \<le> e" and hi: "e < dir_first ds (Suc d)"
      and ec: "entry_inode dirent e = c"
      using valid_covered [OF v _ less.prems] by auto
    have dn: "d < length ds - 1" using dc less.prems by simp
    obtain p pp ns where pn: "path_names ds dirent nms p pp ns" and pd: "entry_inode dirent p = d"
      using less.IH [OF dc dn] by blast
    have l: "lies_in ds dirent e p" using pd dn lo hi by (simp add: lies_in_def)
    from pn l have "path_names ds dirent nms e p (ns @ [entry_name dirent nms e])"
      by (rule path_names.child)
    then show ?thesis using ec by blast
  qed
qed

lemma entry_has_path:
  assumes v: "valid_directory_table ds dirent" and e: "e < length dirent"
  shows "\<exists>p ns. path_names ds dirent nms e p ns"
proof (cases "e = 0")
  case True
  have "path_names ds dirent nms 0 0 []" by (rule path_names.root)
  then show ?thesis using True by blast
next
  case False
  then obtain d where dn: "d < length ds - 1" and lo: "dir_first ds d \<le> e"
    and hi: "e < dir_first ds (Suc d)"
    using range_of_entry [OF v _ e] by auto
  obtain p pp ns where pn: "path_names ds dirent nms p pp ns" and pd: "entry_inode dirent p = d"
    using directory_has_path [OF v dn] by blast
  have l: "lies_in ds dirent e p" using pd dn lo hi by (simp add: lies_in_def)
  from pn l have "path_names ds dirent nms e p (ns @ [entry_name dirent nms e])"
    by (rule path_names.child)
  then show ?thesis by blast
qed

text \<open>
  Claim C10.  Let \<open>g\<close> read a directory table and entries as the builder saves them, with
  every \<open>name_index\<close> inside the names table, and let the entry \<open>e\<close> be reached, going down
  the ranges of the directories from the root, with the names \<open>ns\<close>, in the directory with
  the entry \<open>p\<close>.  The view of \<open>e\<close> with the parent \<open>p\<close> exists, and its \<open>path()\<close> returns the
  names \<open>ns\<close> joined by single \<open>/\<close>.  For the root entry there are no names and the path is
  empty; every other entry is not the root and has names.  For a directory,
  \<open>from_dir_entry_index(e, g)\<close> finds the same parent in the directory table.  When no name
  is empty or starts or ends with \<open>/\<close>, the path of an entry other than the root neither
  starts nor ends with \<open>/\<close>.
\<close>

theorem view_path_joined:
  assumes v: "valid_directory_table ds dirent"
    and de: "dir_entries (g_meta g) = Some dirent" and gd: "g_directories g = ds"
    and ld: "length (directories (g_meta g)) = length ds"
    and nm: "\<forall>e<length dirent. unat (name_index (dirent ! e)) < length (g_names g)"
    and pn: "path_names ds dirent (g_names g) e p ns"
  shows "\<exists>view. from_dir_entry_index2 (of_nat e) (of_nat p) g = Inr view \<and>
           view_path g view = Some (Inr (join_path ns)) \<and>
           (is_root view \<longleftrightarrow> e = 0) \<and> (e = 0 \<longleftrightarrow> ns = []) \<and>
           (e = 0 \<longrightarrow> view_path g view = Some (Inr [])) \<and>
           (entry_inode dirent e < length ds - 1 \<longrightarrow> from_dir_entry_index (of_nat e) g = Inr view) \<and>
           ((\<forall>n\<in>set (g_names g). n \<noteq> [] \<and> hd n \<noteq> CHR ''/'' \<and> last n \<noteq> CHR ''/'') \<longrightarrow>
            e \<noteq> 0 \<longrightarrow>
            join_path ns \<noteq> [] \<and> hd (join_path ns) \<noteq> CHR ''/'' \<and> last (join_path ns) \<noteq> CHR ''/'')"
proof -
  let ?view = "\<lparr>variant = DirEntryView (dirent ! e), self_index = of_nat e,
                 parent_index = (of_nat p :: u32)\<rparr>"
  have m32: "length dirent < 2 ^ 32" using valid_sizes(4) [OF v] .
  have pr: "e < length dirent" "p < length dirent" "e = 0 \<longleftrightarrow> ns = []"
    "entry_inode dirent e = 0 \<longleftrightarrow> e = 0"
    "entry_inode dirent e < length ds - 1 \<longrightarrow> dir_parent ds (entry_inode dirent e) = p"
    using path_names_props [OF v pn] by simp_all
  have ue: "unat (of_nat e :: u32) = e" using pr(1) m32 by (rule u32_of_nat_unat)
  have up: "unat (of_nat p :: u32) = p" using pr(2) m32 by (rule u32_of_nat_unat)
  have p0: "from_dir_entry_index2 (of_nat e) (of_nat p) g = Inr ?view"
    using de pr(1,2) by (simp add: from_dir_entry_index2_def ue up)
  have p1: "view_path g ?view = Some (Inr (join_path ns))"
    using v de gd ld nm pn by (rule path_names_view_path)
  have p2: "is_root ?view \<longleftrightarrow> e = 0"
  proof -
    have "is_root ?view \<longleftrightarrow> unat (inode_num (dirent ! e)) = 0"
      by (simp add: is_root_def unat_eq_0)
    then show ?thesis using pr(4) by (simp add: entry_inode_def)
  qed
  have p3: "e = 0 \<longrightarrow> view_path g ?view = Some (Inr [])" using p1 pr(3) by simp
  have p4: "entry_inode dirent e < length ds - 1 \<longrightarrow> from_dir_entry_index (of_nat e) g = Inr ?view"
  proof
    assume c: "entry_inode dirent e < length ds - 1"
    then have upe: "unat (parent_entry (ds ! entry_inode dirent e)) = p"
      using pr(5) by (simp add: dir_parent_def)
    have pe: "parent_entry (ds ! entry_inode dirent e) = of_nat p"
      unfolding upe [symmetric] by simp
    have "from_dir_entry_index (of_nat e) g
        = Inr \<lparr>variant = DirEntryView (dirent ! unat (of_nat e :: u32)), self_index = of_nat e,
               parent_index = parent_entry (ds ! entry_inode dirent (unat (of_nat e :: u32)))\<rparr>"
    proof (rule from_dir_entry_index_dir [OF de gd ld])
      show "unat (of_nat e :: u32) < length dirent" using pr(1) ue by simp
      show "entry_inode dirent (unat (of_nat e :: u32)) < length ds - 1" using c ue by simp
    qed
    then show "from_dir_entry_index (of_nat e) g = Inr ?view" by (simp add: ue pe)
  qed
  have sub: "set ns \<subseteq> set (g_names g)" using v nm pn by (rule path_names_subset)
  have p5: "(\<forall>n\<in>set (g_names g). n \<noteq> [] \<and> hd n \<noteq> CHR ''/'' \<and> last n \<noteq> CHR ''/'') \<longrightarrow>
            e \<noteq> 0 \<longrightarrow>
            join_path ns \<noteq> [] \<and> hd (join_path ns) \<noteq> CHR ''/'' \<and> last (join_path ns) \<noteq> CHR ''/''"
  proof (intro impI)
    assume a: "\<forall>n\<in>set (g_names g). n \<noteq> [] \<and> hd n \<noteq> CHR ''/'' \<and> last n \<noteq> CHR ''/''"
      and "e \<noteq> 0"
    then have ne: "ns \<noteq> []" using pr(3) by simp
    have all: "\<forall>n\<in>set ns. n \<noteq> []" using a sub by auto
    have "hd ns \<in> set (g_names g)" and "last ns \<in> set (g_names g)" using ne sub by auto
    then have "hd (hd ns) \<noteq> CHR ''/''" and "last (last ns) \<noteq> CHR ''/''" using a by auto
    then show "join_path ns \<noteq> [] \<and> hd (join_path ns) \<noteq> CHR ''/'' \<and> last (join_path ns) \<noteq> CHR ''/''"
      using join_path_ends [OF ne all] by simp
  qed
  show ?thesis
  proof (rule exI [of _ ?view], intro conjI)
    show "from_dir_entry_index2 (of_nat e) (of_nat p) g = Inr ?view" by (rule p0)
    show "view_path g ?view = Some (Inr (join_path ns))" by (rule p1)
    show "is_root ?view \<longleftrightarrow> e = 0" by (rule p2)
    show "e = 0 \<longleftrightarrow> ns = []" by (rule pr(3))
    show "e = 0 \<longrightarrow> view_path g ?view = Some (Inr [])" by (rule p3)
    show "entry_inode dirent e < length ds - 1 \<longrightarrow> from_dir_entry_index (of_nat e) g = Inr ?view"
      by (rule p4)
    show "(\<forall>n\<in>set (g_names g). n \<noteq> [] \<and> hd n \<noteq> CHR ''/'' \<and> last n \<noteq> CHR ''/'') \<longrightarrow>
            e \<noteq> 0 \<longrightarrow>
            join_path ns \<noteq> [] \<and> hd (join_path ns) \<noteq> CHR ''/'' \<and> last (join_path ns) \<noteq> CHR ''/''"
      by (rule p5)
  qed
qed

subsection \<open>The example\<close>

lemma deep_image_accepted: "check_metadata deep_image True = Inr deep_image"
  by (simp add: check_defs upt_0_6 deep_image_def example_inode_def deep_directories_def
      deep_dir_entries_def)

lemma deep_g_made:
  "make_global_metadata deep_image True [''a'', ''b'', ''c''] = Some (Inr deep_g)"
  by (simp add: make_global_metadata_def deep_image_accepted unpack_directories_def deep_g_def)
    (simp add: deep_image_def)

lemma deep_first:
  assumes "d < 4"
  shows "dir_first deep_directories d = [1, 2, 3, 4] ! d"
proof -
  have "d = 0 \<or> d = 1 \<or> d = 2 \<or> d = 3" using assms by arith
  then show ?thesis by (elim disjE) (simp_all add: dir_first_def deep_directories_def)
qed

lemma deep_parent:
  assumes "d < 4"
  shows "dir_parent deep_directories d = [0, 0, 1, 0] ! d"
proof -
  have "d = 0 \<or> d = 1 \<or> d = 2 \<or> d = 3" using assms by arith
  then show ?thesis by (elim disjE) (simp_all add: dir_parent_def deep_directories_def)
qed

lemma deep_entry_inode:
  assumes "e < 4"
  shows "entry_inode deep_dir_entries e = [0, 1, 2, 3] ! e"
proof -
  have "e = 0 \<or> e = 1 \<or> e = 2 \<or> e = 3" using assms by arith
  then show ?thesis by (elim disjE) (simp_all add: entry_inode_def deep_dir_entries_def)
qed

lemma deep_valid: "valid_directory_table deep_directories deep_dir_entries"
proof -
  have sizes: "2 \<le> length deep_directories" "length deep_directories \<le> 2 ^ 32"
    "1 \<le> length deep_dir_entries" "length deep_dir_entries < 2 ^ 32"
    "length deep_directories - 1 = 3" "length deep_dir_entries = 4"
    by (simp_all add: deep_directories_def deep_dir_entries_def)
  have rest: "entry_inode deep_dir_entries 0 = 0 \<and> dir_parent deep_directories 0 = 0 \<and>
         dir_parent deep_directories 3 = 0 \<and>
         dir_first deep_directories 0 = 1 \<and> dir_first deep_directories 3 = 4 \<and>
         (\<forall>d\<in>{0..<3}. dir_first deep_directories d \<le> dir_first deep_directories (Suc d)) \<and>
         (\<forall>d\<in>{0..<3}. \<forall>e\<in>{dir_first deep_directories d..<dir_first deep_directories (Suc d)}.
             entry_inode deep_dir_entries e < 3 \<longrightarrow>
               d < entry_inode deep_dir_entries e \<and>
               dir_parent deep_directories (entry_inode deep_dir_entries e) < 4 \<and>
               entry_inode deep_dir_entries (dir_parent deep_directories (entry_inode deep_dir_entries e)) = d) \<and>
         (\<forall>e\<in>{0..<4}. \<forall>e'\<in>{0..<4}.
             entry_inode deep_dir_entries e < 3 \<longrightarrow>
             entry_inode deep_dir_entries e = entry_inode deep_dir_entries e' \<longrightarrow> e = e') \<and>
         (\<forall>c\<in>{1..<3}. \<exists>d\<in>{0..<c}. \<exists>e\<in>{dir_first deep_directories d..<dir_first deep_directories (Suc d)}.
             entry_inode deep_dir_entries e = c)"
    by (simp add: deep_first deep_parent deep_entry_inode atLeastLessThanSuc eval_nat_numeral)
  show ?thesis
    unfolding valid_directory_table_def Let_def sizes(5,6)
    using sizes(1-4) rest by (intro conjI) simp_all
qed

lemma deep_path_names:
  "path_names deep_directories deep_dir_entries [''a'', ''b'', ''c''] 3 2 [''a'', ''b'', ''c'']"
proof -
  let ?P = "path_names deep_directories deep_dir_entries [''a'', ''b'', ''c'']"
  have l1: "lies_in deep_directories deep_dir_entries 1 0"
    and l2: "lies_in deep_directories deep_dir_entries 2 1"
    and l3: "lies_in deep_directories deep_dir_entries 3 2"
    by (simp_all add: lies_in_def dir_first_def entry_inode_def deep_directories_def
        deep_dir_entries_def)
  have n: "entry_name deep_dir_entries [''a'', ''b'', ''c''] 1 = ''a''"
    "entry_name deep_dir_entries [''a'', ''b'', ''c''] 2 = ''b''"
    "entry_name deep_dir_entries [''a'', ''b'', ''c''] 3 = ''c''"
    by (simp_all add: entry_name_def deep_dir_entries_def)
  have r0: "?P 0 0 []" by (rule path_names.root)
  note r1 = path_names.child [OF r0 l1]
  note r2 = path_names.child [OF r1 l2]
  note r3 = path_names.child [OF r2 l3]
  show ?thesis using r3 unfolding n by simp
qed

theorem view_path_joined_witness:
  "path_names (g_directories deep_g) deep_dir_entries (g_names deep_g) 3 2 [''a'', ''b'', ''c''] \<and>
   view_path deep_g \<lparr>variant = DirEntryView \<lparr>name_index = 2, inode_num = 3\<rparr>,
                      self_index = 3, parent_index = 2\<rparr> = Some (Inr ''a/b/c'')"
proof -
  let ?view = "\<lparr>variant = DirEntryView \<lparr>name_index = 2, inode_num = 3\<rparr>,
                self_index = 3, parent_index = 2\<rparr>"
  have de: "dir_entries (g_meta deep_g) = Some deep_dir_entries"
    by (simp add: deep_g_def deep_image_def)
  have gd: "g_directories deep_g = deep_directories"
    by (simp add: g_directories_def deep_g_def deep_image_def)
  have ld: "length (directories (g_meta deep_g)) = length deep_directories"
    by (simp add: deep_g_def deep_image_def)
  have nm: "\<forall>e<length deep_dir_entries.
              unat (name_index (deep_dir_entries ! e)) < length (g_names deep_g)"
  proof (intro allI impI)
    fix e assume "e < length deep_dir_entries"
    then have "e < 4" by (simp add: deep_dir_entries_def)
    then have "e = 0 \<or> e = 1 \<or> e = 2 \<or> e = 3" by arith
    then show "unat (name_index (deep_dir_entries ! e)) < length (g_names deep_g)"
      by (elim disjE) (simp_all add: deep_dir_entries_def deep_g_def)
  qed
  have gn: "g_names deep_g = [''a'', ''b'', ''c'']" by (simp add: deep_g_def)
  have pn: "path_names deep_directories deep_dir_entries (g_names deep_g) 3 2 [''a'', ''b'', ''c'']"
    unfolding gn by (rule deep_path_names)
  have fv: "from_dir_entry_index2 (of_nat 3) (of_nat 2) deep_g = Inr ?view"
    by (simp add: from_dir_entry_index2_def de deep_dir_entries_def)
  obtain view where a: "from_dir_entry_index2 (of_nat 3) (of_nat 2) deep_g = Inr view"
    and b: "view_path deep_g view = Some (Inr (join_path [''a'', ''b'', ''c'']))"
    using view_path_joined [OF deep_valid de gd ld nm pn] by blast
  have "view = ?view" using a fv by simp
  then have "view_path deep_g ?view = Some (Inr ''a/b/c'')" using b by simp
  then show ?thesis using pn gd by simp
qed

end
